theory Spec2Isabelle
  imports Complex_Main "HOL-Library.Log_Nat"
begin

section \<open>The inventory ledger and stock-movement engine of app.py\<close>

text \<open>
  The theory embeds the four inventory utilities of \<^verbatim>\<open>app.py\<close>
  (\<^verbatim>\<open>get_or_create_inv\<close>, \<^verbatim>\<open>inventory_in\<close>, \<^verbatim>\<open>inventory_out\<close>,
  \<^verbatim>\<open>transfer_stock\<close>), the two tables they read and write and the
  \<^verbatim>\<open>with engine.begin() as conn:\<close> block in which every caller runs them.

  Conventions of the embedding:
  \<^item> the connection \<^verbatim>\<open>conn\<close> is the pair of tables, passed in and returned;
  \<^item> a table is the list of its rows in insertion order; \<^verbatim>\<open>.first()\<close> of a
    select is the first row of the list that satisfies the condition;
  \<^item> ids (Python \<^verbatim>\<open>int\<close>) are \<open>int\<close>; the nullable \<^verbatim>\<open>bin_id\<close> is an \<open>int option\<close>;
    the database holds integers of 64 bits, and a theorem that depends on it says so
    (\<open>int64\<close>);
  \<^item> a quantity is a Python \<^verbatim>\<open>float\<close>, given by its value, a rational number:
    \<open>py_float x\<close> is \<^verbatim>\<open>float(x)\<close>, the binary64 number nearest to \<open>x\<close>, and a sum
    or difference of two floats is the exact one, rounded again. Infinities and NaN are
    outside the model, which covers results of magnitude below \<open>2 ^ 1024\<close>;
  \<^item> the database is the SQLite file of the demo mode: a \<^verbatim>\<open>Numeric(14,3)\<close> column
    keeps the float written to it, and a row read through the table object carries
    the quantity as a decimal with three digits after the point (\<open>decimal3\<close>);
  \<^item> the clock is an argument: each call of \<^verbatim>\<open>now_ts_id\<close> receives the reading
    \<^verbatim>\<open>datetime.now().strftime("%Y%m%d%H%M%S")\<close> as a string;
  \<^item> the columns \<^verbatim>\<open>created_at\<close> and \<^verbatim>\<open>updated_at\<close>, which no operation reads,
    are left out; foreign keys are not checked (ids are assumed to name existing rows);
  \<^item> an exception is a value \<open>Raised e c\<close> that carries the connection as it is
    when the exception leaves the function.
\<close>

subsection \<open>Tables\<close>

text \<open>Table \<^verbatim>\<open>inventory\<close>: id, warehouse_id, item_id, bin_id, qty.\<close>

record inventory_row =
  inv_id :: int
  inv_warehouse_id :: int
  inv_item_id :: int
  inv_bin_id :: "int option"
  inv_qty :: rat

datatype movement_type = IN | OUT | TRANSFER

text \<open>Table \<^verbatim>\<open>stock_movements\<close>; \<^verbatim>\<open>movement_no\<close> is declared \<^verbatim>\<open>unique=True\<close>.\<close>

record movement =
  mv_id :: int
  movement_no :: string
  mv_type :: movement_type
  mv_warehouse_id :: int
  mv_warehouse_to_id :: "int option"
  mv_item_id :: int
  mv_bin_id :: "int option"
  mv_qty :: rat
  mv_reason :: string
  mv_ref_entity :: string
  mv_ref_id :: int

record conn =
  inventory :: "inventory_row list"
  stock_movements :: "movement list"

definition empty_db :: conn where
  "empty_db = \<lparr>inventory = [], stock_movements = []\<rparr>"

text \<open>
  \<open>InsufficientStock item warehouse have wanted\<close> is the \<^verbatim>\<open>ValueError\<close> of
  \<^verbatim>\<open>inventory_out\<close> with the four values its message interpolates (\<open>have\<close> is
  \<^verbatim>\<open>row['qty']\<close>, the decimal read from the row);
  \<open>IntegrityError no\<close> is what the insert into \<^verbatim>\<open>stock_movements\<close> raises when
  \<^verbatim>\<open>movement_no\<close> is already in the table; \<open>TypeError\<close> is \<^verbatim>\<open>row["qty"]\<close> on
  \<^verbatim>\<open>None\<close>.
\<close>

datatype error =
    InsufficientStock int int rat rat
  | IntegrityError string
  | TypeError

datatype outcome = Done conn | Raised error conn

subsection \<open>Floats and the quantity columns\<close>

text \<open>
  \<open>rne x\<close> is the integer nearest to \<open>x\<close>, the even one of the two when \<open>x\<close> lies
  halfway. \<open>expo x\<close> is the binary exponent of \<open>x \<noteq> 0\<close>, the integer \<open>e\<close> with
  \<open>2 ^ e \<le> \<bar>x\<bar> < 2 ^ (e + 1)\<close>.
\<close>

definition rne :: "rat \<Rightarrow> int" where
  "rne x = (let f = \<lfloor>x\<rfloor>; d = x - of_int f
            in if d < 1 / 2 then f else if 1 / 2 < d then f + 1
               else if even f then f else f + 1)"

definition expo :: "rat \<Rightarrow> int" where
  "expo x =
     (if 1 \<le> \<bar>x\<bar> then bitlen \<lfloor>\<bar>x\<bar>\<rfloor> - 1
      else (let j = bitlen \<lfloor>1 / \<bar>x\<bar>\<rfloor> - 1
            in if 1 / \<bar>x\<bar> = 2 powi j then - j else - (j + 1)))"

text \<open>
  \<^verbatim>\<open>float(x)\<close>: a binary64 number has 53 significant bits and an exponent of at least
  -1022, so the numbers near \<open>x\<close> are the multiples of \<open>2 ^ (max (expo x) (-1022) - 52)\<close>,
  and the nearest one is taken, ties to even.
\<close>

definition py_float :: "rat \<Rightarrow> rat" where
  "py_float x =
     (if x = 0 then 0
      else (let u = 2 powi (max (expo x) (- 1022) - 52) in of_int (rne (x / u)) * u))"

text \<open>
  Reading a \<^verbatim>\<open>Numeric(14,3)\<close> column of a row: the stored float is formatted with
  \<^verbatim>\<open>"%.3f"\<close> and becomes a \<^verbatim>\<open>Decimal\<close>, the multiple of 1/1000 nearest to it.
\<close>

definition decimal3 :: "rat \<Rightarrow> rat" where
  "decimal3 x = of_int (rne (x * 1000)) / 1000"

text \<open>\<^verbatim>\<open>a + b\<close> and \<^verbatim>\<open>a - b\<close> on floats.\<close>

definition py_add :: "rat \<Rightarrow> rat \<Rightarrow> rat" where
  "py_add a b = py_float (a + b)"

definition py_sub :: "rat \<Rightarrow> rat \<Rightarrow> rat" where
  "py_sub a b = py_float (a - b)"

subsection \<open>Helpers\<close>

text \<open>\<^verbatim>\<open>now_ts_id(prefix)\<close>, with the clock reading \<open>now\<close> already formatted.\<close>

definition now_ts_id :: "string \<Rightarrow> string \<Rightarrow> string" where
  "now_ts_id prefix now = prefix @ now"

text \<open>The integer primary key of a new row: one more than the largest id in use.\<close>

definition next_id :: "int list \<Rightarrow> int" where
  "next_id ids = fold max ids 0 + 1"

text \<open>
  The condition of the select in \<^verbatim>\<open>get_or_create_inv\<close>:
  \<^verbatim>\<open>warehouse_id == w and item_id == i and bin_id IS b\<close>.
\<close>

definition inv_matches :: "int \<Rightarrow> int \<Rightarrow> int option \<Rightarrow> inventory_row \<Rightarrow> bool" where
  "inv_matches warehouse_id item_id bin_id r \<longleftrightarrow>
     inv_warehouse_id r = warehouse_id \<and> inv_item_id r = item_id \<and> inv_bin_id r = bin_id"

definition select_inv :: "conn \<Rightarrow> int \<Rightarrow> int \<Rightarrow> int option \<Rightarrow> inventory_row option" where
  "select_inv c warehouse_id item_id bin_id =
     find (inv_matches warehouse_id item_id bin_id) (inventory c)"

text \<open>\<^verbatim>\<open>inventory.insert().values(warehouse_id, item_id, bin_id, qty=0)\<close>\<close>

definition inventory_insert :: "conn \<Rightarrow> int \<Rightarrow> int \<Rightarrow> int option \<Rightarrow> rat \<Rightarrow> conn" where
  "inventory_insert c warehouse_id item_id bin_id q =
     c\<lparr>inventory := inventory c @
         [\<lparr>inv_id = next_id (map inv_id (inventory c)),
           inv_warehouse_id = warehouse_id, inv_item_id = item_id,
           inv_bin_id = bin_id, inv_qty = q\<rparr>]\<rparr>"

text \<open>\<^verbatim>\<open>inventory.update().where(inventory.c.id == rid).values(qty=new_qty)\<close>\<close>

definition inventory_set_qty :: "conn \<Rightarrow> int \<Rightarrow> rat \<Rightarrow> conn" where
  "inventory_set_qty c rid new_qty =
     c\<lparr>inventory := map (\<lambda>r. if inv_id r = rid then r\<lparr>inv_qty := new_qty\<rparr> else r) (inventory c)\<rparr>"

text \<open>
  \<^verbatim>\<open>stock_movements.insert().values(...)\<close>: the unique column \<^verbatim>\<open>movement_no\<close>
  rejects a value that is already in the table. The quantity arrives as a float.
\<close>

definition stock_movements_insert ::
  "conn \<Rightarrow> string \<Rightarrow> movement_type \<Rightarrow> int \<Rightarrow> int option \<Rightarrow> int \<Rightarrow> int option \<Rightarrow> rat
     \<Rightarrow> string \<Rightarrow> string \<Rightarrow> int \<Rightarrow> outcome" where
  "stock_movements_insert c no ty warehouse_id warehouse_to_id item_id bin_id q rsn ref_e ref_i =
     (if no \<in> set (map movement_no (stock_movements c)) then Raised (IntegrityError no) c
      else Done (c\<lparr>stock_movements := stock_movements c @
         [\<lparr>mv_id = next_id (map mv_id (stock_movements c)), movement_no = no, mv_type = ty,
           mv_warehouse_id = warehouse_id, mv_warehouse_to_id = warehouse_to_id,
           mv_item_id = item_id, mv_bin_id = bin_id, mv_qty = q, mv_reason = rsn,
           mv_ref_entity = ref_e, mv_ref_id = ref_i\<rparr>]\<rparr>))"

subsection \<open>The inventory utilities\<close>

text \<open>
  The row that \<^verbatim>\<open>get_or_create_inv\<close> returns is the stored row; the functions that
  use \<^verbatim>\<open>row["qty"]\<close> read it through \<open>decimal3\<close>.
\<close>

definition get_or_create_inv ::
  "conn \<Rightarrow> int \<Rightarrow> int \<Rightarrow> int option \<Rightarrow> inventory_row option \<times> conn" where
  "get_or_create_inv c warehouse_id item_id bin_id =
     (case select_inv c warehouse_id item_id bin_id of
        Some row \<Rightarrow> (Some row, c)
      | None \<Rightarrow>
          (let c' = inventory_insert c warehouse_id item_id bin_id 0
           in (select_inv c' warehouse_id item_id bin_id, c')))"

definition inventory_in ::
  "conn \<Rightarrow> int \<Rightarrow> int \<Rightarrow> rat \<Rightarrow> string \<Rightarrow> int \<Rightarrow> int option \<Rightarrow> string \<Rightarrow> outcome" where
  "inventory_in c warehouse_id item_id q ref_e ref_i bin_id now =
     (case get_or_create_inv c warehouse_id item_id bin_id of
        (None, c1) \<Rightarrow> Raised TypeError c1
      | (Some row, c1) \<Rightarrow>
          (let new_qty = py_add (py_float (decimal3 (inv_qty row))) (py_float q);
               c2 = inventory_set_qty c1 (inv_id row) new_qty
           in stock_movements_insert c2 (now_ts_id ''MIN'' now) IN warehouse_id None
                item_id bin_id (py_float q) ''GRN'' ref_e ref_i))"

definition inventory_out ::
  "conn \<Rightarrow> int \<Rightarrow> int \<Rightarrow> rat \<Rightarrow> string \<Rightarrow> int \<Rightarrow> int option \<Rightarrow> string \<Rightarrow> outcome" where
  "inventory_out c warehouse_id item_id q ref_e ref_i bin_id now =
     (case get_or_create_inv c warehouse_id item_id bin_id of
        (None, c1) \<Rightarrow> Raised TypeError c1
      | (Some row, c1) \<Rightarrow>
          (let new_qty = py_sub (py_float (decimal3 (inv_qty row))) (py_float q)
           in if new_qty < - py_float (1 / 1000000)
              then Raised (InsufficientStock item_id warehouse_id (decimal3 (inv_qty row)) q) c1
              else
                (let c2 = inventory_set_qty c1 (inv_id row) new_qty
                 in stock_movements_insert c2 (now_ts_id ''MOUT'' now) OUT warehouse_id None
                      item_id bin_id (py_float q) ''DELIVERY'' ref_e ref_i)))"

text \<open>
  \<^verbatim>\<open>transfer_stock\<close> reads the clock three times, once in each leg and once for the
  marker row: \<open>now1\<close>, \<open>now2\<close>, \<open>now3\<close>. The marker's \<^verbatim>\<open>bin_id\<close> is not given,
  so it is NULL.
\<close>

definition transfer_stock ::
  "conn \<Rightarrow> int \<Rightarrow> int \<Rightarrow> int \<Rightarrow> rat \<Rightarrow> string \<Rightarrow> string \<Rightarrow> string \<Rightarrow> string \<Rightarrow> outcome" where
  "transfer_stock c wh_from wh_to item_id q rsn now1 now2 now3 =
     (case inventory_out c wh_from item_id q ''TRANSFER'' 0 None now1 of
        Raised e c1 \<Rightarrow> Raised e c1
      | Done c1 \<Rightarrow>
          (case inventory_in c1 wh_to item_id q ''TRANSFER'' 0 None now2 of
             Raised e c2 \<Rightarrow> Raised e c2
           | Done c2 \<Rightarrow>
               stock_movements_insert c2 (now_ts_id ''MTR'' now3) TRANSFER wh_from (Some wh_to)
                 item_id None (py_float q) rsn ''TRANSFER'' 0))"

text \<open>
  \<^verbatim>\<open>with engine.begin() as conn: body(conn)\<close>: the block commits what the body wrote
  when the body returns and rolls everything back when it raises; the exception then
  reaches the caller.
\<close>

definition engine_begin :: "(conn \<Rightarrow> outcome) \<Rightarrow> conn \<Rightarrow> error option \<times> conn" where
  "engine_begin body c =
     (case body c of Done c' \<Rightarrow> (None, c') | Raised e c' \<Rightarrow> (Some e, c))"

subsection \<open>Notions used to state the properties\<close>

text \<open>
  The quantity on hand for a key: the stored \<^verbatim>\<open>qty\<close> of the row that the select of
  \<^verbatim>\<open>get_or_create_inv\<close> returns, and 0 when there is no row (the row would be
  created at 0).
\<close>

definition on_hand :: "conn \<Rightarrow> int \<Rightarrow> int \<Rightarrow> int option \<Rightarrow> rat" where
  "on_hand c warehouse_id item_id bin_id =
     (case select_inv c warehouse_id item_id bin_id of Some r \<Rightarrow> inv_qty r | None \<Rightarrow> 0)"

text \<open>The primary key of \<^verbatim>\<open>inventory\<close>: no two rows share an id.\<close>

definition pk_ok :: "conn \<Rightarrow> bool" where
  "pk_ok c \<longleftrightarrow> distinct (map inv_id (inventory c))"

text \<open>The key of a stock line, and the property that no two rows share a key.\<close>

definition inv_key :: "inventory_row \<Rightarrow> int \<times> int \<times> int option" where
  "inv_key r = (inv_warehouse_id r, inv_item_id r, inv_bin_id r)"

definition keys_ok :: "conn \<Rightarrow> bool" where
  "keys_ok c \<longleftrightarrow> distinct (map inv_key (inventory c))"

text \<open>
  The quantity that \<^verbatim>\<open>inventory_in\<close> and \<^verbatim>\<open>inventory_out\<close> compute from the
  stored one and the argument.
\<close>

definition in_new_qty :: "rat \<Rightarrow> rat \<Rightarrow> rat" where
  "in_new_qty stored q = py_add (py_float (decimal3 stored)) (py_float q)"

definition out_new_qty :: "rat \<Rightarrow> rat \<Rightarrow> rat" where
  "out_new_qty stored q = py_sub (py_float (decimal3 stored)) (py_float q)"

text \<open>The row that \<^verbatim>\<open>get_or_create_inv\<close> inserts, and the rows that the engine logs.\<close>

definition new_row :: "conn \<Rightarrow> int \<Rightarrow> int \<Rightarrow> int option \<Rightarrow> inventory_row" where
  "new_row c warehouse_id item_id bin_id =
     \<lparr>inv_id = next_id (map inv_id (inventory c)), inv_warehouse_id = warehouse_id,
      inv_item_id = item_id, inv_bin_id = bin_id, inv_qty = 0\<rparr>"

definition in_record :: "conn \<Rightarrow> int \<Rightarrow> int \<Rightarrow> rat \<Rightarrow> string \<Rightarrow> int \<Rightarrow> int option \<Rightarrow> string \<Rightarrow> movement" where
  "in_record c w i q re ri b now =
     \<lparr>mv_id = next_id (map mv_id (stock_movements c)), movement_no = now_ts_id ''MIN'' now,
      mv_type = IN, mv_warehouse_id = w, mv_warehouse_to_id = None, mv_item_id = i,
      mv_bin_id = b, mv_qty = py_float q, mv_reason = ''GRN'', mv_ref_entity = re, mv_ref_id = ri\<rparr>"

definition out_record :: "conn \<Rightarrow> int \<Rightarrow> int \<Rightarrow> rat \<Rightarrow> string \<Rightarrow> int \<Rightarrow> int option \<Rightarrow> string \<Rightarrow> movement" where
  "out_record c w i q re ri b now =
     \<lparr>mv_id = next_id (map mv_id (stock_movements c)), movement_no = now_ts_id ''MOUT'' now,
      mv_type = OUT, mv_warehouse_id = w, mv_warehouse_to_id = None, mv_item_id = i,
      mv_bin_id = b, mv_qty = py_float q, mv_reason = ''DELIVERY'', mv_ref_entity = re, mv_ref_id = ri\<rparr>"

definition transfer_record :: "conn \<Rightarrow> int \<Rightarrow> int \<Rightarrow> int \<Rightarrow> rat \<Rightarrow> string \<Rightarrow> string \<Rightarrow> movement" where
  "transfer_record c wh_from wh_to i q rsn now =
     \<lparr>mv_id = next_id (map mv_id (stock_movements c)), movement_no = now_ts_id ''MTR'' now,
      mv_type = TRANSFER, mv_warehouse_id = wh_from, mv_warehouse_to_id = Some wh_to,
      mv_item_id = i, mv_bin_id = None, mv_qty = py_float q, mv_reason = rsn,
      mv_ref_entity = ''TRANSFER'', mv_ref_id = 0\<rparr>"

text \<open>
  An engine operation is one call of a utility inside its own
  \<^verbatim>\<open>with engine.begin() as conn:\<close> block, with the clock readings of the call.
\<close>

datatype operation =
    OpIN int int rat string int "int option" string
  | OpOUT int int rat string int "int option" string
  | OpTRANSFER int int int rat string string string string

fun perform :: "operation \<Rightarrow> conn \<Rightarrow> outcome" where
  "perform (OpIN w i q re ri b now) c = inventory_in c w i q re ri b now"
| "perform (OpOUT w i q re ri b now) c = inventory_out c w i q re ri b now"
| "perform (OpTRANSFER wh_from wh_to i q rsn now1 now2 now3) c =
     transfer_stock c wh_from wh_to i q rsn now1 now2 now3"

definition engine_call :: "conn \<Rightarrow> operation \<Rightarrow> conn" where
  "engine_call c op = snd (engine_begin (perform op) c)"

definition run :: "operation list \<Rightarrow> conn" where
  "run ops = foldl engine_call empty_db ops"

text \<open>
  Replaying the log for a key: an IN row of the key adds its quantity, an OUT row of the
  key subtracts it, a TRANSFER row counts for nothing (its two legs are logged as an OUT
  row and an IN row of their own).
\<close>

definition signed_qty :: "int \<Rightarrow> int \<Rightarrow> int option \<Rightarrow> movement \<Rightarrow> rat" where
  "signed_qty w i b m =
     (if mv_warehouse_id m = w \<and> mv_item_id m = i \<and> mv_bin_id m = b
      then (case mv_type m of IN \<Rightarrow> mv_qty m | OUT \<Rightarrow> - mv_qty m | TRANSFER \<Rightarrow> 0)
      else 0)"

definition replay :: "movement list \<Rightarrow> int \<Rightarrow> int \<Rightarrow> int option \<Rightarrow> rat" where
  "replay ms w i b = sum_list (map (signed_qty w i b) ms)"

text \<open>
  The same replay over the log as a select returns it, every quantity at three decimals.
\<close>

definition replay_read :: "movement list \<Rightarrow> int \<Rightarrow> int \<Rightarrow> int option \<Rightarrow> rat" where
  "replay_read ms w i b = replay (map (\<lambda>m. m\<lparr>mv_qty := decimal3 (mv_qty m)\<rparr>) ms) w i b"

text \<open>The quantity that an operation puts into stock: IN and both legs of TRANSFER.\<close>

fun op_qty :: "operation \<Rightarrow> rat" where
  "op_qty (OpIN w i q re ri b now) = q"
| "op_qty (OpOUT w i q re ri b now) = q"
| "op_qty (OpTRANSFER wh_from wh_to i q rsn now1 now2 now3) = q"

fun adds_stock :: "operation \<Rightarrow> bool" where
  "adds_stock (OpOUT w i q re ri b now) = False"
| "adds_stock _ = True"

text \<open>
  The integers that the database accepts as a parameter, and the operations all of whose
  ids are such integers.
\<close>

definition int64 :: "int \<Rightarrow> bool" where
  "int64 n \<longleftrightarrow> - (2 ^ 63) \<le> n \<and> n < 2 ^ 63"

fun ids_ok :: "operation \<Rightarrow> bool" where
  "ids_ok (OpIN w i q re ri b now) \<longleftrightarrow>
     int64 w \<and> int64 i \<and> int64 ri \<and> (case b of None \<Rightarrow> True | Some n \<Rightarrow> int64 n)"
| "ids_ok (OpOUT w i q re ri b now) \<longleftrightarrow>
     int64 w \<and> int64 i \<and> int64 ri \<and> (case b of None \<Rightarrow> True | Some n \<Rightarrow> int64 n)"
| "ids_ok (OpTRANSFER wh_from wh_to i q rsn now1 now2 now3) \<longleftrightarrow>
     int64 wh_from \<and> int64 wh_to \<and> int64 i"

text \<open>The quantities of a list of operations, added up without their signs.\<close>

definition total_qty :: "operation list \<Rightarrow> rat" where
  "total_qty ops = sum_list (map (\<lambda>op. \<bar>op_qty op\<bar>) ops)"

text \<open>
  Properties of a connection: ids and keys are not repeated; the quantity on hand of every
  key is the replay of the log; it is a whole number of magnitude at most \<open>N\<close>; it is
  not below the tolerance of \<^verbatim>\<open>inventory_out\<close>, the float \<^verbatim>\<open>-1e-6\<close>.
\<close>

definition ledger_ok :: "conn \<Rightarrow> bool" where
  "ledger_ok c \<longleftrightarrow> pk_ok c \<and> keys_ok c"

definition replay_ok :: "conn \<Rightarrow> bool" where
  "replay_ok c \<longleftrightarrow> (\<forall>w i b. on_hand c w i b = replay (stock_movements c) w i b)"

definition whole_ok :: "rat \<Rightarrow> conn \<Rightarrow> bool" where
  "whole_ok N c \<longleftrightarrow> (\<forall>w i b. on_hand c w i b \<in> \<int> \<and> \<bar>on_hand c w i b\<bar> \<le> N)"

definition floor_ok :: "conn \<Rightarrow> bool" where
  "floor_ok c \<longleftrightarrow> (\<forall>w i b. \<not> on_hand c w i b < - py_float (1 / 1000000))"


text \<open>
  Several calls inside one \<^verbatim>\<open>with engine.begin() as conn:\<close> block, as in the loops of the
  goods-receipt and shipping pages: the first exception ends the block.
\<close>

fun perform_all :: "operation list \<Rightarrow> conn \<Rightarrow> outcome" where
  "perform_all [] c = Done c"
| "perform_all (op # ops) c =
     (case perform op c of Done c' \<Rightarrow> perform_all ops c' | Raised e c' \<Rightarrow> Raised e c')"

section \<open>Properties\<close>

subsection \<open>Rounding\<close>

lemma rne_of_int [simp]: "rne (of_int n) = n"
  by (simp add: rne_def)

lemma rne_nonneg: "- (1 / 2) \<le> x \<Longrightarrow> 0 \<le> rne x"
proof -
  assume x: "- (1 / 2) \<le> x"
  have f: "- 1 \<le> \<lfloor>x\<rfloor>" using x by (simp add: le_floor_iff)
  show ?thesis
  proof (cases "\<lfloor>x\<rfloor> = - 1")
    case True
    then have "x - of_int \<lfloor>x\<rfloor> = x + 1" by simp
    then show ?thesis using x True by (auto simp: rne_def Let_def)
  next
    case False
    then have "0 \<le> \<lfloor>x\<rfloor>" using f by linarith
    then show ?thesis by (auto simp: rne_def Let_def)
  qed
qed

lemma rne_close: "\<bar>of_int (rne x) - x\<bar> \<le> 1 / 2"
proof -
  have "of_int \<lfloor>x\<rfloor> \<le> x" "x < of_int \<lfloor>x\<rfloor> + 1" by linarith+
  then show ?thesis by (auto simp: rne_def Let_def)
qed

lemma bitlen_floor_bounds:
  fixes y :: rat
  assumes "1 \<le> y"
  shows "2 powi (bitlen \<lfloor>y\<rfloor> - 1) \<le> y" and "y < 2 powi (bitlen \<lfloor>y\<rfloor>)"
    and "0 \<le> bitlen \<lfloor>y\<rfloor> - 1"
proof -
  let ?n = "\<lfloor>y\<rfloor>"
  have n: "0 < ?n" using assms by simp
  have b: "2 ^ nat (bitlen ?n - 1) \<le> ?n" "?n < 2 ^ nat (bitlen ?n)"
    using bitlen_bounds [OF n] by simp_all
  have pos: "0 < bitlen ?n"
    using n bitlen_nonneg [of ?n] bitlen_eq_zero_iff [of ?n] by linarith
  then show "0 \<le> bitlen ?n - 1" by simp
  have "(2::rat) powi (bitlen ?n - 1) = 2 ^ nat (bitlen ?n - 1)"
    using pos by (simp add: power_int_def)
  also have "\<dots> = of_int (2 ^ nat (bitlen ?n - 1))" by simp
  also have "\<dots> \<le> of_int ?n" using b(1) by (simp only: of_int_le_iff)
  also have "\<dots> \<le> y" by simp
  finally show "2 powi (bitlen ?n - 1) \<le> y" .
  have "?n + 1 \<le> 2 ^ nat (bitlen ?n)" using b(2) by simp
  then have "(of_int (?n + 1) :: rat) \<le> of_int (2 ^ nat (bitlen ?n))"
    by (simp only: of_int_le_iff)
  moreover have "y < of_int (?n + 1)" by simp linarith
  moreover have "(2::rat) powi (bitlen ?n) = of_int (2 ^ nat (bitlen ?n))"
    using pos by (simp add: power_int_def)
  ultimately show "y < 2 powi (bitlen ?n)" by simp
qed

lemma expo_bounds:
  assumes "x \<noteq> 0"
  shows "2 powi (expo x) \<le> \<bar>x\<bar>" and "\<bar>x\<bar> < 2 powi (expo x + 1)"
proof -
  have both: "2 powi (expo x) \<le> \<bar>x\<bar> \<and> \<bar>x\<bar> < 2 powi (expo x + 1)"
  proof (cases "1 \<le> \<bar>x\<bar>")
    case True
    then show ?thesis
      using bitlen_floor_bounds [OF True] by (simp add: expo_def)
  next
    case False
    let ?y = "1 / \<bar>x\<bar>"
    have xpos: "0 < \<bar>x\<bar>" using assms by simp
    have y: "1 \<le> ?y" using False xpos by (simp add: field_simps)
    let ?j = "bitlen \<lfloor>?y\<rfloor> - 1"
    have lo: "2 powi ?j \<le> ?y" and hi: "?y < 2 powi (?j + 1)" and j0: "0 \<le> ?j"
      using bitlen_floor_bounds [OF y] by simp_all
    have x_eq: "\<bar>x\<bar> = 1 / ?y" by simp
    show ?thesis
    proof (cases "?y = 2 powi ?j")
      case True
      have e: "expo x = - ?j" using False True by (simp add: expo_def Let_def)
      have "\<bar>x\<bar> = 1 / 2 powi ?j" using True x_eq by simp
      then have ax: "\<bar>x\<bar> = 2 powi (- ?j)"
        by (simp only: power_int_minus divide_inverse mult_1)
      have "(2::rat) powi (- ?j) < 2 powi (- ?j + 1)"
        by (rule power_int_strict_increasing) simp_all
      then show ?thesis using ax e by simp
    next
      case neq: False
      have e: "expo x = - (?j + 1)" using False neq by (simp add: expo_def Let_def)
      have gt: "2 powi ?j < ?y" using lo neq by simp
      define P where "P = (2::rat) powi (?j + 1)"
      define Q where "Q = (2::rat) powi ?j"
      have P: "0 < P" and Q: "0 < Q" by (simp_all add: P_def Q_def)
      have "1 / \<bar>x\<bar> < P" using hi by (simp add: P_def)
      then have "1 < P * \<bar>x\<bar>" using xpos by (simp add: field_simps)
      then have "inverse P < \<bar>x\<bar>" using P by (simp add: field_simps)
      then have a: "2 powi (- (?j + 1)) \<le> \<bar>x\<bar>"
        by (simp only: power_int_minus P_def)
      have "Q < 1 / \<bar>x\<bar>" using gt by (simp add: Q_def)
      then have "Q * \<bar>x\<bar> < 1" using xpos by (simp add: field_simps)
      then have "\<bar>x\<bar> < inverse Q" using Q by (simp add: field_simps)
      then have b: "\<bar>x\<bar> < 2 powi (- ?j)"
        by (simp only: power_int_minus Q_def)
      show ?thesis using a b e by simp
    qed
  qed
  show "2 powi (expo x) \<le> \<bar>x\<bar>" using both ..
  show "\<bar>x\<bar> < 2 powi (expo x + 1)" using both ..
qed


lemma py_float_nonneg: "0 \<le> x \<Longrightarrow> 0 \<le> py_float x"
proof -
  assume x: "0 \<le> x"
  have "0 \<le> rne (x / u)" if "0 < u" for u :: rat
    using x that by (intro rne_nonneg) (simp add: order_trans [of _ 0])
  then show ?thesis
    by (simp add: py_float_def Let_def)
qed

lemma decimal3_of_int [simp]: "decimal3 (of_int n) = of_int n"
proof -
  have "of_int n * (1000::rat) = of_int (n * 1000)" by simp
  then have "rne (of_int n * 1000) = n * 1000" by (simp only: rne_of_int)
  then show ?thesis by (simp add: decimal3_def)
qed

lemma decimal3_nonneg: "- (1 / 2000) \<le> x \<Longrightarrow> 0 \<le> decimal3 x"
proof -
  assume "- (1 / 2000) \<le> x"
  then have "- (1 / 2) \<le> x * 1000" by simp
  then have "0 \<le> rne (x * 1000)" by (rule rne_nonneg)
  then show ?thesis by (simp add: decimal3_def)
qed

lemma py_float_of_int:
  assumes "\<bar>n\<bar> \<le> 2 ^ 53"
  shows "py_float (of_int n) = of_int n"
proof (cases "n = 0")
  case True
  then show ?thesis by (simp add: py_float_def)
next
  case False
  let ?x = "of_int n :: rat"
  have x0: "?x \<noteq> 0" using False by simp
  define k where "k = max (expo ?x) (- 1022) - 52"
  have lo: "2 powi (expo ?x) \<le> \<bar>?x\<bar>" using x0 by (rule expo_bounds)
  have ub: "\<bar>?x\<bar> \<le> 2 powi 53"
  proof -
    have "(of_int \<bar>n\<bar> :: rat) \<le> of_int (2 ^ 53)" using assms by (simp only: of_int_le_iff)
    then show ?thesis by simp
  qed
  have e53: "expo ?x \<le> 53"
  proof (rule ccontr)
    assume "\<not> expo ?x \<le> 53"
    then have "54 \<le> expo ?x" by simp
    then have "(2::rat) powi 54 \<le> 2 powi (expo ?x)"
      by (intro power_int_increasing) simp_all
    then have "(2::rat) powi 54 \<le> 2 powi 53" using lo ub by linarith
    then show False by simp
  qed
  have k1: "k \<le> 1" using e53 by (simp add: k_def)
  have fl: "py_float ?x = of_int (rne (?x / 2 powi k)) * 2 powi k"
    using x0 by (simp add: py_float_def k_def Let_def)
  show ?thesis
  proof (cases "k \<le> 0")
    case True
    have u: "(2::rat) powi k = inverse (2 ^ nat (- k))"
      using True by (simp add: power_int_def power_one_over inverse_eq_divide)
    have "?x / 2 powi k = of_int (n * 2 ^ nat (- k))"
      by (simp add: u divide_inverse)
    then have "rne (?x / 2 powi k) = n * 2 ^ nat (- k)" by (simp only: rne_of_int)
    then show ?thesis by (simp add: fl u)
  next
    case False
    then have k: "k = 1" using k1 by simp
    then have "expo ?x = 53" using e53 by (simp add: k_def max_def split: if_splits)
    then have "2 powi 53 \<le> \<bar>?x\<bar>" using lo by simp
    then have "\<bar>?x\<bar> = 2 ^ 53" using ub by simp
    then have "\<bar>n\<bar> = 2 ^ 53"
      by (metis of_int_abs of_int_eq_numeral_power_cancel_iff)
    then have n: "n = 2 ^ 53 \<or> n = - (2 ^ 53)" by linarith
    have "?x / 2 powi k = of_int (n div 2)"
      using n k by auto
    then have "rne (?x / 2 powi k) = n div 2" by (simp only: rne_of_int)
    then show ?thesis using n by (auto simp: fl k)
  qed
qed

lemma py_float_numeral [simp]:
  "numeral k \<le> (2::int) ^ 53 \<Longrightarrow> py_float (numeral k) = numeral k"
  using py_float_of_int [of "numeral k"] by simp

lemma py_float_neg_numeral [simp]:
  "numeral k \<le> (2::int) ^ 53 \<Longrightarrow> py_float (- numeral k) = - numeral k"
  using py_float_of_int [of "- numeral k"] by simp

lemma py_float_0 [simp]: "py_float 0 = 0"
  by (simp add: py_float_def)

lemma py_float_1 [simp]: "py_float 1 = 1"
  using py_float_of_int [of 1] by simp

lemma decimal3_numeral [simp]: "decimal3 (numeral k) = numeral k"
  using decimal3_of_int [of "numeral k"] by simp

lemma decimal3_neg_numeral [simp]: "decimal3 (- numeral k) = - numeral k"
  using decimal3_of_int [of "- numeral k"] by simp

lemma decimal3_0 [simp]: "decimal3 0 = 0"
  using decimal3_of_int [of 0] by simp

lemma decimal3_1 [simp]: "decimal3 1 = 1"
  using decimal3_of_int [of 1] by simp

lemma py_float_eps: "py_float (1 / 1000000) = 4722366482869645 / 4722366482869645213696"
  by code_simp

lemma py_float_whole:
  assumes "x \<in> \<int>" "\<bar>x\<bar> \<le> 2 ^ 53"
  shows "py_float x = x" and "decimal3 x = x"
proof -
  obtain n where n: "x = of_int n" using assms(1) by (rule Ints_cases)
  have "(of_int \<bar>n\<bar> :: rat) \<le> of_int (2 ^ 53)" using assms(2) by (simp add: n)
  then have "\<bar>n\<bar> \<le> 2 ^ 53" by (simp only: of_int_le_iff)
  then show "py_float x = x" unfolding n by (rule py_float_of_int)
  show "decimal3 x = x" unfolding n by simp
qed

lemma in_new_qty_whole:
  assumes "x \<in> \<int>" "q \<in> \<int>" "\<bar>x\<bar> \<le> 2 ^ 53" "\<bar>q\<bar> \<le> 2 ^ 53" "\<bar>x + q\<bar> \<le> 2 ^ 53"
  shows "in_new_qty x q = x + q"
proof -
  have s: "x + q \<in> \<int>" using assms(1,2) by simp
  show ?thesis
    by (simp add: in_new_qty_def py_add_def py_float_whole [OF assms(1,3)]
        py_float_whole [OF assms(2,4)] py_float_whole [OF s assms(5)])
qed

lemma out_new_qty_whole:
  assumes "x \<in> \<int>" "q \<in> \<int>" "\<bar>x\<bar> \<le> 2 ^ 53" "\<bar>q\<bar> \<le> 2 ^ 53" "\<bar>x - q\<bar> \<le> 2 ^ 53"
  shows "out_new_qty x q = x - q"
proof -
  have s: "x - q \<in> \<int>" using assms(1,2) by simp
  show ?thesis
    by (simp add: out_new_qty_def py_sub_def py_float_whole [OF assms(1,3)]
        py_float_whole [OF assms(2,4)] py_float_whole [OF s assms(5)])
qed

lemma eps_bounds:
  "0 \<le> py_float (1 / 1000000)" "py_float (1 / 1000000) \<le> 1 / 1000000"
  "py_float (1 / 1000000) \<le> 1 / 2000"
  by (simp_all add: py_float_eps)

lemma in_new_qty_nonneg:
  assumes "\<not> x < - py_float (1 / 1000000)" "0 \<le> q"
  shows "0 \<le> in_new_qty x q"
proof -
  have "- (1 / 2000) \<le> x" using assms(1) eps_bounds(3) by linarith
  then have "0 \<le> py_float (decimal3 x)" by (intro py_float_nonneg decimal3_nonneg)
  moreover have "0 \<le> py_float q" using assms(2) by (rule py_float_nonneg)
  ultimately show ?thesis
    by (simp add: in_new_qty_def py_add_def py_float_nonneg)
qed

text \<open>The floats of the examples.\<close>

lemma py_float_30_000001:
  "py_float (30000001 / 1000000) = 8444249582794657 / 281474976710656"
  by code_simp

lemma py_float_30_diff:
  "py_float (- (281474977 / 281474976710656)) = - (281474977 / 281474976710656)"
  by code_simp

lemma py_float_2048: "py_float (1 / 2048) = 1 / 2048"
  by code_simp

lemma py_float_102399: "py_float (102399 / 2048) = 102399 / 2048"
  by code_simp

lemma decimal3_2048: "decimal3 (1 / 2048) = 0"
  by code_simp

lemma decimal3_102399: "decimal3 (102399 / 2048) = 50"
  by code_simp

lemma py_float_1000: "py_float (1 / 1000) = 1152921504606847 / 1152921504606846976"
  by code_simp

lemma py_float_2000: "py_float (1 / 2000) = 1152921504606847 / 2305843009213693952"
  by code_simp

lemma py_float_float_1000:
  "py_float (1152921504606847 / 1152921504606846976) = 1152921504606847 / 1152921504606846976"
  by code_simp

lemma py_float_float_2000:
  "py_float (1152921504606847 / 2305843009213693952) = 1152921504606847 / 2305843009213693952"
  by code_simp

lemma decimal3_float_1000: "decimal3 (1152921504606847 / 1152921504606846976) = 1 / 1000"
  by code_simp

lemma decimal3_float_2000: "decimal3 (1152921504606847 / 2305843009213693952) = 1 / 1000"
  by code_simp

lemmas example_floats = py_float_30_000001 py_float_30_diff py_float_2048 py_float_102399
  decimal3_2048 decimal3_102399 py_float_1000 py_float_2000 py_float_float_1000
  py_float_float_2000 decimal3_float_1000 decimal3_float_2000

text \<open>The definitions that evaluate the model on a concrete input.\<close>

lemmas engine_defs = run_def engine_call_def engine_begin_def inventory_in_def inventory_out_def
  transfer_stock_def get_or_create_inv_def select_inv_def inventory_insert_def
  inventory_set_qty_def stock_movements_insert_def now_ts_id_def next_id_def inv_matches_def
  empty_db_def on_hand_def py_add_def py_sub_def py_float_eps Let_def

subsection \<open>Lists and ids\<close>

lemma find_append_eq:
  "find P (xs @ ys) = (case find P xs of None \<Rightarrow> find P ys | Some x \<Rightarrow> Some x)"
  by (induction xs) auto

lemma find_map_eq: "find P (map f xs) = map_option f (find (\<lambda>x. P (f x)) xs)"
  by (induction xs) auto

lemma find_Some_mem: "find P xs = Some x \<Longrightarrow> x \<in> set xs \<and> P x"
  by (induction xs) (auto split: if_splits)

lemma find_distinct_key:
  "distinct (map f xs) \<Longrightarrow> r \<in> set xs \<Longrightarrow> find (\<lambda>x. f x = f r) xs = Some r"
  by (induction xs) (auto simp: image_iff)

lemma filter_find_None: "find P xs = None \<Longrightarrow> filter P xs = []"
  by (induction xs) (auto split: if_splits)

lemma fold_max_ge: "(a::int) \<le> fold max xs a"
  by (induction xs arbitrary: a) (auto intro: order_trans [OF max.cobounded2])

lemma fold_max_mem: "(x::int) \<in> set xs \<Longrightarrow> x \<le> fold max xs a"
proof (induction xs arbitrary: a)
  case Nil
  then show ?case by simp
next
  case (Cons y ys)
  show ?case
  proof (cases "x = y")
    case True
    have "y \<le> max y a" by simp
    also have "\<dots> \<le> fold max ys (max y a)" by (rule fold_max_ge)
    finally show ?thesis using True by simp
  next
    case False
    with Cons show ?thesis by simp
  qed
qed

lemma next_id_fresh: "next_id ids \<notin> set ids"
proof
  assume "next_id ids \<in> set ids"
  then have "next_id ids \<le> fold max ids 0" by (rule fold_max_mem)
  then show False by (simp add: next_id_def)
qed

subsection \<open>Lookup, insertion and update\<close>

lemma select_inv_mem:
  "select_inv c w i b = Some r \<Longrightarrow> r \<in> set (inventory c) \<and> inv_matches w i b r"
  unfolding select_inv_def by (rule find_Some_mem)

lemma select_inv_insert:
  "select_inv (inventory_insert c w i b q) w' i' b' =
     (case select_inv c w' i' b' of
        Some r \<Rightarrow> Some r
      | None \<Rightarrow> if (w', i', b') = (w, i, b)
                then Some \<lparr>inv_id = next_id (map inv_id (inventory c)), inv_warehouse_id = w,
                            inv_item_id = i, inv_bin_id = b, inv_qty = q\<rparr>
                else None)"
  by (auto simp: select_inv_def inventory_insert_def find_append_eq inv_matches_def
           split: option.splits)

lemma get_or_create_inv_eq:
  "get_or_create_inv c w i b =
     (case select_inv c w i b of
        Some r \<Rightarrow> (Some r, c)
      | None \<Rightarrow> (Some (new_row c w i b), inventory_insert c w i b 0))"
  by (simp add: get_or_create_inv_def select_inv_insert new_row_def Let_def split: option.splits)

lemma select_inv_None_iff:
  "select_inv c w i b = None \<longleftrightarrow> (w, i, b) \<notin> inv_key ` set (inventory c)"
  by (auto simp: select_inv_def find_None_iff inv_matches_def inv_key_def image_iff)

lemma select_inv_update:
  "select_inv (inventory_set_qty c rid x) w i b =
     map_option (\<lambda>r. if inv_id r = rid then r\<lparr>inv_qty := x\<rparr> else r) (select_inv c w i b)"
proof -
  have "(\<lambda>r. inv_matches w i b (if inv_id r = rid then r\<lparr>inv_qty := x\<rparr> else r)) = inv_matches w i b"
    by (auto simp: inv_matches_def fun_eq_iff)
  then show ?thesis
    by (simp add: select_inv_def inventory_set_qty_def find_map_eq)
qed

lemma pk_ok_same_id:
  assumes "pk_ok c" "r \<in> set (inventory c)" "r' \<in> set (inventory c)" "inv_id r = inv_id r'"
  shows "r = r'"
  using assms by (auto simp: pk_ok_def distinct_map dest: inj_onD)

lemma pk_ok_insert: "pk_ok c \<Longrightarrow> pk_ok (inventory_insert c w i b q)"
  using next_id_fresh [of "map inv_id (inventory c)"]
  by (simp add: pk_ok_def inventory_insert_def)

lemma pk_ok_update: "pk_ok c \<Longrightarrow> pk_ok (inventory_set_qty c rid x)"
proof -
  have ids: "inv_id \<circ> (\<lambda>r. if inv_id r = rid then r\<lparr>inv_qty := x\<rparr> else r) = inv_id"
    by (auto simp: fun_eq_iff)
  show "pk_ok c \<Longrightarrow> pk_ok (inventory_set_qty c rid x)"
    by (simp add: pk_ok_def inventory_set_qty_def ids)
qed


lemma keys_ok_insert:
  "keys_ok c \<Longrightarrow> select_inv c w i b = None \<Longrightarrow> keys_ok (inventory_insert c w i b q)"
  by (simp add: keys_ok_def inventory_insert_def select_inv_None_iff inv_key_def)

lemma keys_ok_update: "keys_ok c \<Longrightarrow> keys_ok (inventory_set_qty c rid x)"
proof -
  have ks: "inv_key \<circ> (\<lambda>r. if inv_id r = rid then r\<lparr>inv_qty := x\<rparr> else r) = inv_key"
    by (auto simp: fun_eq_iff inv_key_def)
  show "keys_ok c \<Longrightarrow> keys_ok (inventory_set_qty c rid x)"
    by (simp add: keys_ok_def inventory_set_qty_def ks)
qed

lemma inventory_set_qty_movements:
  "stock_movements (inventory_set_qty c rid x) = stock_movements c"
  by (simp add: inventory_set_qty_def)


lemma on_hand_movements_upd [simp]: "on_hand (c\<lparr>stock_movements := ms\<rparr>) w i b = on_hand c w i b"
  by (simp add: on_hand_def select_inv_def)

lemma pk_ok_movements_upd [simp]: "pk_ok (c\<lparr>stock_movements := ms\<rparr>) = pk_ok c"
  by (simp add: pk_ok_def)

lemma keys_ok_movements_upd [simp]: "keys_ok (c\<lparr>stock_movements := ms\<rparr>) = keys_ok c"
  by (simp add: keys_ok_def)

lemma get_or_create_inv_row:
  "\<exists>row. fst (get_or_create_inv c w i b) = Some row \<and> inv_matches w i b row
     \<and> inv_qty row = on_hand c w i b
     \<and> select_inv (snd (get_or_create_inv c w i b)) w i b = Some row"
  by (auto simp: get_or_create_inv_eq on_hand_def new_row_def select_inv_insert inv_matches_def
           dest: select_inv_mem split: option.splits)

lemma get_or_create_inv_movements:
  "stock_movements (snd (get_or_create_inv c w i b)) = stock_movements c"
  by (simp add: get_or_create_inv_eq inventory_insert_def split: option.splits)

lemma get_or_create_inv_on_hand:
  "on_hand (snd (get_or_create_inv c w i b)) w' i' b' = on_hand c w' i' b'"
  by (simp add: get_or_create_inv_eq on_hand_def select_inv_insert split: option.splits)

lemma get_or_create_inv_pk_ok: "pk_ok c \<Longrightarrow> pk_ok (snd (get_or_create_inv c w i b))"
  by (simp add: get_or_create_inv_eq pk_ok_insert split: option.splits)

lemma get_or_create_inv_keys_ok: "keys_ok c \<Longrightarrow> keys_ok (snd (get_or_create_inv c w i b))"
  by (simp add: get_or_create_inv_eq keys_ok_insert split: option.splits)

lemma get_or_create_inv_other_rows:
  assumes "inv_key r \<noteq> (w, i, b)"
  shows "r \<in> set (inventory (snd (get_or_create_inv c w i b))) \<longleftrightarrow> r \<in> set (inventory c)"
  using assms
  by (auto simp: get_or_create_inv_eq inventory_insert_def inv_key_def split: option.splits)

lemma on_hand_update_same:
  "select_inv c w i b = Some row \<Longrightarrow> on_hand (inventory_set_qty c (inv_id row) x) w i b = x"
  by (simp add: on_hand_def select_inv_update)

lemma on_hand_update_other:
  assumes "pk_ok c" "select_inv c w i b = Some row" "(w', i', b') \<noteq> (w, i, b)"
  shows "on_hand (inventory_set_qty c (inv_id row) x) w' i' b' = on_hand c w' i' b'"
proof (cases "select_inv c w' i' b'")
  case None
  then show ?thesis by (simp add: on_hand_def select_inv_update)
next
  case (Some r)
  have r: "r \<in> set (inventory c)" "inv_matches w' i' b' r"
    using select_inv_mem [OF Some] by simp_all
  have row: "row \<in> set (inventory c)" "inv_matches w i b row"
    using select_inv_mem [OF assms(2)] by simp_all
  have "r \<noteq> row"
    using r(2) row(2) assms(3) by (auto simp: inv_matches_def)
  then have "inv_id r \<noteq> inv_id row"
    using pk_ok_same_id [OF assms(1) r(1) row(1)] by blast
  then show ?thesis
    using Some by (simp add: on_hand_def select_inv_update)
qed

lemma set_qty_other_rows:
  assumes "pk_ok c" "select_inv c w i b = Some row" "inv_key r \<noteq> (w, i, b)"
  shows "r \<in> set (inventory (inventory_set_qty c (inv_id row) x)) \<longleftrightarrow> r \<in> set (inventory c)"
proof -
  have row: "row \<in> set (inventory c)" "inv_key row = (w, i, b)"
    using select_inv_mem [OF assms(2)] by (simp_all add: inv_matches_def inv_key_def)
  let ?f = "\<lambda>r. if inv_id r = inv_id row then r\<lparr>inv_qty := x\<rparr> else r"
  have same: "r0 = row" if "r0 \<in> set (inventory c)" "inv_id r0 = inv_id row" for r0
    using pk_ok_same_id [OF assms(1) that(1) row(1) that(2)] .
  show ?thesis
  proof
    assume "r \<in> set (inventory (inventory_set_qty c (inv_id row) x))"
    then obtain r0 where r0: "r0 \<in> set (inventory c)" "r = ?f r0"
      by (auto simp: inventory_set_qty_def)
    show "r \<in> set (inventory c)"
    proof (cases "inv_id r0 = inv_id row")
      case True
      then have "r0 = row" using r0(1) by (intro same)
      then have "inv_key r = (w, i, b)" using r0(2) row(2) by (simp add: inv_key_def)
      then show ?thesis using assms(3) by simp
    next
      case False
      then show ?thesis using r0 by simp
    qed
  next
    assume r: "r \<in> set (inventory c)"
    have "inv_id r \<noteq> inv_id row"
      using same [OF r] row(2) assms(3) by auto
    then have "?f r = r" by simp
    then show "r \<in> set (inventory (inventory_set_qty c (inv_id row) x))"
      using r unfolding inventory_set_qty_def by (auto simp: image_iff intro!: bexI [of _ r])
  qed
qed

lemma keys_ok_select:
  assumes "keys_ok c" "r \<in> set (inventory c)"
  shows "select_inv c (inv_warehouse_id r) (inv_item_id r) (inv_bin_id r) = Some r"
proof -
  have "inv_matches (inv_warehouse_id r) (inv_item_id r) (inv_bin_id r) = (\<lambda>x. inv_key x = inv_key r)"
    by (auto simp: inv_matches_def inv_key_def fun_eq_iff)
  then show ?thesis
    using find_distinct_key [of inv_key "inventory c" r] assms
    by (simp add: select_inv_def keys_ok_def)
qed

lemma keys_ok_on_hand:
  "keys_ok c \<Longrightarrow> r \<in> set (inventory c) \<Longrightarrow>
     on_hand c (inv_warehouse_id r) (inv_item_id r) (inv_bin_id r) = inv_qty r"
  by (simp add: on_hand_def keys_ok_select)


subsection \<open>The lookup\<close>

text \<open>
  Claim C8 (idempotent lookup). In every state, \<^verbatim>\<open>get_or_create_inv\<close> called twice with
  the same key returns the same row both times, and the second call changes nothing. The
  first call leaves the movement log alone; when a row of the key exists it returns that row
  and changes nothing; when none exists it appends one row of quantity 0, every earlier row
  stays as it was, and afterwards exactly one row has the key.
\<close>

theorem get_or_create_inv_idempotent:
  "(let (r1, c1) = get_or_create_inv c w i b;
        (r2, c2) = get_or_create_inv c1 w i b
    in r2 = r1 \<and> c2 = c1 \<and> stock_movements c1 = stock_movements c \<and>
       (case select_inv c w i b of
          Some row \<Rightarrow> r1 = Some row \<and> c1 = c
        | None \<Rightarrow>
            (let created = \<lparr>inv_id = next_id (map inv_id (inventory c)), inv_warehouse_id = w,
                              inv_item_id = i, inv_bin_id = b, inv_qty = 0\<rparr>
             in r1 = Some created \<and> inventory c1 = inventory c @ [created] \<and>
                filter (inv_matches w i b) (inventory c2) = [created])))"
proof (cases "select_inv c w i b")
  case None
  have sel: "select_inv (inventory_insert c w i b 0) w i b = Some (new_row c w i b)"
    by (simp add: select_inv_insert None new_row_def)
  have "filter (inv_matches w i b) (inventory c) = []"
    using None unfolding select_inv_def by (rule filter_find_None)
  then have "filter (inv_matches w i b) (inventory (inventory_insert c w i b 0)) = [new_row c w i b]"
    by (simp add: inventory_insert_def new_row_def inv_matches_def)
  then show ?thesis
    using None sel
    by (simp add: get_or_create_inv_eq) (simp add: inventory_insert_def new_row_def)
next
  case (Some row)
  then show ?thesis by (simp add: get_or_create_inv_eq)
qed

theorem get_or_create_inv_idempotent_witness:
  "(let (r1, c1) = get_or_create_inv empty_db 1 7 None;
        (r2, c2) = get_or_create_inv c1 1 7 None
    in r2 = r1 \<and> c2 = c1 \<and>
       inventory c2 = [\<lparr>inv_id = 1, inv_warehouse_id = 1, inv_item_id = 7, inv_bin_id = None,
                          inv_qty = 0\<rparr>])"
  using get_or_create_inv_idempotent [of empty_db 1 7 None]
  by (simp add: empty_db_def select_inv_def next_id_def Let_def split: prod.splits)

subsection \<open>The effect of an IN and of an OUT\<close>

lemma stock_movements_insert_Done:
  "stock_movements_insert c no ty w wt i b q rsn re ri = Done c' \<longleftrightarrow>
     no \<notin> movement_no ` set (stock_movements c) \<and>
     c' = c\<lparr>stock_movements := stock_movements c @
         [\<lparr>mv_id = next_id (map mv_id (stock_movements c)), movement_no = no, mv_type = ty,
           mv_warehouse_id = w, mv_warehouse_to_id = wt, mv_item_id = i, mv_bin_id = b,
           mv_qty = q, mv_reason = rsn, mv_ref_entity = re, mv_ref_id = ri\<rparr>]\<rparr>"
  by (auto simp: stock_movements_insert_def)

lemma stock_movements_insert_Raised:
  "stock_movements_insert c no ty w wt i b q rsn re ri = Raised e c' \<longleftrightarrow>
     no \<in> movement_no ` set (stock_movements c) \<and> e = IntegrityError no \<and> c' = c"
  by (auto simp: stock_movements_insert_def)

lemma adjust_same:
  assumes "get_or_create_inv c w i b = (Some row, c1)" "select_inv c1 w i b = Some row"
  shows "on_hand (inventory_set_qty c1 (inv_id row) x) w i b = x"
  using assms(2) by (rule on_hand_update_same)

lemma adjust_other:
  assumes "get_or_create_inv c w i b = (Some row, c1)" "select_inv c1 w i b = Some row"
    and "pk_ok c" "(w', i', b') \<noteq> (w, i, b)"
  shows "on_hand (inventory_set_qty c1 (inv_id row) x) w' i' b' = on_hand c w' i' b'"
proof -
  have c1: "c1 = snd (get_or_create_inv c w i b)" using assms(1) by simp
  have "pk_ok c1" unfolding c1 using assms(3) by (rule get_or_create_inv_pk_ok)
  then have "on_hand (inventory_set_qty c1 (inv_id row) x) w' i' b' = on_hand c1 w' i' b'"
    using assms(2,4) by (rule on_hand_update_other)
  then show ?thesis by (simp add: c1 get_or_create_inv_on_hand)
qed

lemma adjust_pk_ok:
  assumes "get_or_create_inv c w i b = (Some row, c1)" "pk_ok c"
  shows "pk_ok (inventory_set_qty c1 rid x)"
proof -
  have c1: "c1 = snd (get_or_create_inv c w i b)" using assms(1) by simp
  show ?thesis unfolding c1 using assms(2) by (intro pk_ok_update get_or_create_inv_pk_ok)
qed

lemma adjust_movements:
  assumes "get_or_create_inv c w i b = (Some row, c1)"
  shows "stock_movements (inventory_set_qty c1 rid x) = stock_movements c"
proof -
  have c1: "c1 = snd (get_or_create_inv c w i b)" using assms(1) by simp
  show ?thesis by (simp add: c1 inventory_set_qty_movements get_or_create_inv_movements)
qed

lemma adjust_keys_ok:
  assumes "get_or_create_inv c w i b = (Some row, c1)" "keys_ok c"
  shows "keys_ok (inventory_set_qty c1 rid x)"
proof -
  have c1: "c1 = snd (get_or_create_inv c w i b)" using assms(1) by simp
  show ?thesis unfolding c1 using assms(2) by (intro keys_ok_update get_or_create_inv_keys_ok)
qed

lemma adjust_other_rows:
  assumes "get_or_create_inv c w i b = (Some row, c1)" "select_inv c1 w i b = Some row"
    and "pk_ok c" "inv_key r \<noteq> (w, i, b)"
  shows "r \<in> set (inventory (inventory_set_qty c1 (inv_id row) x)) \<longleftrightarrow> r \<in> set (inventory c)"
proof -
  have c1: "c1 = snd (get_or_create_inv c w i b)" using assms(1) by simp
  have "pk_ok c1" unfolding c1 using assms(3) by (rule get_or_create_inv_pk_ok)
  then have "r \<in> set (inventory (inventory_set_qty c1 (inv_id row) x)) \<longleftrightarrow> r \<in> set (inventory c1)"
    using assms(2,4) by (rule set_qty_other_rows)
  then show ?thesis by (simp add: c1 get_or_create_inv_other_rows [OF assms(4)])
qed

lemma inventory_in_unfold:
  obtains row c1 where
    "get_or_create_inv c w i b = (Some row, c1)"
    "select_inv c1 w i b = Some row"
    "inventory_in c w i q re ri b now =
       stock_movements_insert (inventory_set_qty c1 (inv_id row) (in_new_qty (on_hand c w i b) q))
         (now_ts_id ''MIN'' now) IN w None i b (py_float q) ''GRN'' re ri"
proof -
  obtain r c1 where g0: "get_or_create_inv c w i b = (r, c1)"
    by (cases "get_or_create_inv c w i b")
  obtain row where row: "r = Some row" "inv_qty row = on_hand c w i b"
      "select_inv c1 w i b = Some row"
    using get_or_create_inv_row [of c w i b] by (auto simp: g0)
  have g: "get_or_create_inv c w i b = (Some row, c1)"
    using g0 row(1) by simp
  show thesis
    by (rule that [OF g row(3)]) (simp add: inventory_in_def g row(2) Let_def in_new_qty_def)
qed

lemma inventory_out_unfold:
  obtains row c1 where
    "get_or_create_inv c w i b = (Some row, c1)"
    "select_inv c1 w i b = Some row"
    "inventory_out c w i q re ri b now =
       (if out_new_qty (on_hand c w i b) q < - py_float (1 / 1000000)
        then Raised (InsufficientStock i w (decimal3 (on_hand c w i b)) q) c1
        else stock_movements_insert (inventory_set_qty c1 (inv_id row) (out_new_qty (on_hand c w i b) q))
               (now_ts_id ''MOUT'' now) OUT w None i b (py_float q) ''DELIVERY'' re ri)"
proof -
  obtain r c1 where g0: "get_or_create_inv c w i b = (r, c1)"
    by (cases "get_or_create_inv c w i b")
  obtain row where row: "r = Some row" "inv_qty row = on_hand c w i b"
      "select_inv c1 w i b = Some row"
    using get_or_create_inv_row [of c w i b] by (auto simp: g0)
  have g: "get_or_create_inv c w i b = (Some row, c1)"
    using g0 row(1) by simp
  show thesis
    by (rule that [OF g row(3)]) (simp add: inventory_out_def g row(2) Let_def out_new_qty_def)
qed


lemma inventory_in_Done:
  assumes "inventory_in c w i q re ri b now = Done c'"
  shows in_same: "on_hand c' w i b = in_new_qty (on_hand c w i b) q"
    and in_other: "pk_ok c \<Longrightarrow> (w', i', b') \<noteq> (w, i, b) \<Longrightarrow> on_hand c' w' i' b' = on_hand c w' i' b'"
    and in_log: "stock_movements c' = stock_movements c @ [in_record c w i q re ri b now]"
    and in_pk_ok: "pk_ok c \<Longrightarrow> pk_ok c'"
    and in_keys_ok: "keys_ok c \<Longrightarrow> keys_ok c'"
proof -
  obtain row c1 where g: "get_or_create_inv c w i b = (Some row, c1)"
    and sel: "select_inv c1 w i b = Some row"
    and eq: "inventory_in c w i q re ri b now =
       stock_movements_insert (inventory_set_qty c1 (inv_id row) (in_new_qty (on_hand c w i b) q))
         (now_ts_id ''MIN'' now) IN w None i b (py_float q) ''GRN'' re ri"
    by (rule inventory_in_unfold)
  let ?c2 = "inventory_set_qty c1 (inv_id row) (in_new_qty (on_hand c w i b) q)"
  have mv: "stock_movements ?c2 = stock_movements c" using g by (rule adjust_movements)
  have c': "c' = ?c2\<lparr>stock_movements := stock_movements c @ [in_record c w i q re ri b now]\<rparr>"
    using assms unfolding eq stock_movements_insert_Done by (simp add: mv in_record_def)
  show "on_hand c' w i b = in_new_qty (on_hand c w i b) q"
    by (simp add: c' adjust_same [OF g sel])
  show "pk_ok c \<Longrightarrow> (w', i', b') \<noteq> (w, i, b) \<Longrightarrow> on_hand c' w' i' b' = on_hand c w' i' b'"
    by (simp add: c' adjust_other [OF g sel])
  show "stock_movements c' = stock_movements c @ [in_record c w i q re ri b now]"
    by (simp add: c')
  show "pk_ok c \<Longrightarrow> pk_ok c'" by (simp add: c' adjust_pk_ok [OF g])
  show "keys_ok c \<Longrightarrow> keys_ok c'" by (simp add: c' adjust_keys_ok [OF g])
qed

lemma inventory_in_succeeds:
  assumes "now_ts_id ''MIN'' now \<notin> movement_no ` set (stock_movements c)"
  shows "\<exists>c'. inventory_in c w i q re ri b now = Done c'"
proof -
  obtain row c1 where g: "get_or_create_inv c w i b = (Some row, c1)"
    and eq: "inventory_in c w i q re ri b now =
       stock_movements_insert (inventory_set_qty c1 (inv_id row) (in_new_qty (on_hand c w i b) q))
         (now_ts_id ''MIN'' now) IN w None i b (py_float q) ''GRN'' re ri"
    by (rule inventory_in_unfold)
  show ?thesis
    unfolding eq stock_movements_insert_Done using assms
    by (simp add: adjust_movements [OF g])
qed

lemma inventory_in_Raised:
  assumes "inventory_in c w i q re ri b now = Raised e c'"
  shows "e = IntegrityError (now_ts_id ''MIN'' now)"
    and "now_ts_id ''MIN'' now \<in> movement_no ` set (stock_movements c)"
proof -
  obtain row c1 where g: "get_or_create_inv c w i b = (Some row, c1)"
    and eq: "inventory_in c w i q re ri b now =
       stock_movements_insert (inventory_set_qty c1 (inv_id row) (in_new_qty (on_hand c w i b) q))
         (now_ts_id ''MIN'' now) IN w None i b (py_float q) ''GRN'' re ri"
    by (rule inventory_in_unfold)
  from assms show "e = IntegrityError (now_ts_id ''MIN'' now)"
    unfolding eq stock_movements_insert_Raised by simp
  from assms show "now_ts_id ''MIN'' now \<in> movement_no ` set (stock_movements c)"
    unfolding eq stock_movements_insert_Raised by (simp add: adjust_movements [OF g])
qed

lemma inventory_out_Done:
  assumes "inventory_out c w i q re ri b now = Done c'"
  shows out_enough: "\<not> out_new_qty (on_hand c w i b) q < - py_float (1 / 1000000)"
    and out_same: "on_hand c' w i b = out_new_qty (on_hand c w i b) q"
    and out_other: "pk_ok c \<Longrightarrow> (w', i', b') \<noteq> (w, i, b) \<Longrightarrow> on_hand c' w' i' b' = on_hand c w' i' b'"
    and out_log: "stock_movements c' = stock_movements c @ [out_record c w i q re ri b now]"
    and out_pk_ok: "pk_ok c \<Longrightarrow> pk_ok c'"
    and out_keys_ok: "keys_ok c \<Longrightarrow> keys_ok c'"
proof -
  obtain row c1 where g: "get_or_create_inv c w i b = (Some row, c1)"
    and sel: "select_inv c1 w i b = Some row"
    and eq: "inventory_out c w i q re ri b now =
       (if out_new_qty (on_hand c w i b) q < - py_float (1 / 1000000)
        then Raised (InsufficientStock i w (decimal3 (on_hand c w i b)) q) c1
        else stock_movements_insert (inventory_set_qty c1 (inv_id row) (out_new_qty (on_hand c w i b) q))
               (now_ts_id ''MOUT'' now) OUT w None i b (py_float q) ''DELIVERY'' re ri)"
    by (rule inventory_out_unfold)
  let ?c2 = "inventory_set_qty c1 (inv_id row) (out_new_qty (on_hand c w i b) q)"
  show ok: "\<not> out_new_qty (on_hand c w i b) q < - py_float (1 / 1000000)"
    using assms unfolding eq by (auto split: if_splits)
  have mv: "stock_movements ?c2 = stock_movements c" using g by (rule adjust_movements)
  have "stock_movements_insert ?c2 (now_ts_id ''MOUT'' now) OUT w None i b (py_float q) ''DELIVERY'' re ri
        = Done c'"
    using assms ok unfolding eq by simp
  then have c': "c' = ?c2\<lparr>stock_movements := stock_movements c @ [out_record c w i q re ri b now]\<rparr>"
    unfolding stock_movements_insert_Done by (simp add: mv out_record_def)
  show "on_hand c' w i b = out_new_qty (on_hand c w i b) q"
    by (simp add: c' adjust_same [OF g sel])
  show "pk_ok c \<Longrightarrow> (w', i', b') \<noteq> (w, i, b) \<Longrightarrow> on_hand c' w' i' b' = on_hand c w' i' b'"
    by (simp add: c' adjust_other [OF g sel])
  show "stock_movements c' = stock_movements c @ [out_record c w i q re ri b now]"
    by (simp add: c')
  show "pk_ok c \<Longrightarrow> pk_ok c'" by (simp add: c' adjust_pk_ok [OF g])
  show "keys_ok c \<Longrightarrow> keys_ok c'" by (simp add: c' adjust_keys_ok [OF g])
qed

lemma inventory_out_insufficient:
  assumes "out_new_qty (on_hand c w i b) q < - py_float (1 / 1000000)"
  shows "inventory_out c w i q re ri b now =
           Raised (InsufficientStock i w (decimal3 (on_hand c w i b)) q) (snd (get_or_create_inv c w i b))"
proof -
  obtain row c1 where g: "get_or_create_inv c w i b = (Some row, c1)"
    and eq: "inventory_out c w i q re ri b now =
       (if out_new_qty (on_hand c w i b) q < - py_float (1 / 1000000)
        then Raised (InsufficientStock i w (decimal3 (on_hand c w i b)) q) c1
        else stock_movements_insert (inventory_set_qty c1 (inv_id row) (out_new_qty (on_hand c w i b) q))
               (now_ts_id ''MOUT'' now) OUT w None i b (py_float q) ''DELIVERY'' re ri)"
    by (rule inventory_out_unfold)
  show ?thesis unfolding eq using assms by (simp add: g)
qed

lemma inventory_out_succeeds:
  assumes "\<not> out_new_qty (on_hand c w i b) q < - py_float (1 / 1000000)"
    and "now_ts_id ''MOUT'' now \<notin> movement_no ` set (stock_movements c)"
  shows "\<exists>c'. inventory_out c w i q re ri b now = Done c'"
proof -
  obtain row c1 where g: "get_or_create_inv c w i b = (Some row, c1)"
    and eq: "inventory_out c w i q re ri b now =
       (if out_new_qty (on_hand c w i b) q < - py_float (1 / 1000000)
        then Raised (InsufficientStock i w (decimal3 (on_hand c w i b)) q) c1
        else stock_movements_insert (inventory_set_qty c1 (inv_id row) (out_new_qty (on_hand c w i b) q))
               (now_ts_id ''MOUT'' now) OUT w None i b (py_float q) ''DELIVERY'' re ri)"
    by (rule inventory_out_unfold)
  show ?thesis
    unfolding eq using assms
    by (simp add: adjust_movements [OF g] stock_movements_insert_Done)
qed

lemma inventory_out_collision:
  assumes "\<not> out_new_qty (on_hand c w i b) q < - py_float (1 / 1000000)"
    and "now_ts_id ''MOUT'' now \<in> movement_no ` set (stock_movements c)"
  shows "\<exists>c'. inventory_out c w i q re ri b now = Raised (IntegrityError (now_ts_id ''MOUT'' now)) c'"
proof -
  obtain row c1 where g: "get_or_create_inv c w i b = (Some row, c1)"
    and eq: "inventory_out c w i q re ri b now =
       (if out_new_qty (on_hand c w i b) q < - py_float (1 / 1000000)
        then Raised (InsufficientStock i w (decimal3 (on_hand c w i b)) q) c1
        else stock_movements_insert (inventory_set_qty c1 (inv_id row) (out_new_qty (on_hand c w i b) q))
               (now_ts_id ''MOUT'' now) OUT w None i b (py_float q) ''DELIVERY'' re ri)"
    by (rule inventory_out_unfold)
  show ?thesis
    unfolding eq stock_movements_insert_Raised using assms
    by (simp add: adjust_movements [OF g] stock_movements_insert_Raised)
qed


lemma inventory_out_Raised_insufficient:
  assumes "inventory_out c w i q re ri b now = Raised (InsufficientStock a1 a2 a3 a4) c1"
  shows "out_new_qty (on_hand c w i b) q < - py_float (1 / 1000000)"
    and "c1 = snd (get_or_create_inv c w i b)"
    and "a1 = i \<and> a2 = w \<and> a3 = decimal3 (on_hand c w i b) \<and> a4 = q"
proof -
  obtain row c1' where g: "get_or_create_inv c w i b = (Some row, c1')"
    and eq: "inventory_out c w i q re ri b now =
       (if out_new_qty (on_hand c w i b) q < - py_float (1 / 1000000)
        then Raised (InsufficientStock i w (decimal3 (on_hand c w i b)) q) c1'
        else stock_movements_insert (inventory_set_qty c1' (inv_id row) (out_new_qty (on_hand c w i b) q))
               (now_ts_id ''MOUT'' now) OUT w None i b (py_float q) ''DELIVERY'' re ri)"
    by (rule inventory_out_unfold)
  show low: "out_new_qty (on_hand c w i b) q < - py_float (1 / 1000000)"
    using assms unfolding eq by (auto simp: stock_movements_insert_Raised split: if_splits)
  have r: "Raised (InsufficientStock i w (decimal3 (on_hand c w i b)) q) c1'
           = Raised (InsufficientStock a1 a2 a3 a4) c1"
    using assms unfolding eq by (auto simp: low)
  from r have "c1' = c1" by simp
  then show "c1 = snd (get_or_create_inv c w i b)"
    by (simp add: g)
  from r show "a1 = i \<and> a2 = w \<and> a3 = decimal3 (on_hand c w i b) \<and> a4 = q"
    by auto
qed

lemma in_on_hand:
  assumes "inventory_in c w i q re ri b now = Done c'" "pk_ok c"
  shows "on_hand c' w' i' b' =
           (if (w', i', b') = (w, i, b) then in_new_qty (on_hand c w i b) q
            else on_hand c w' i' b')"
proof (cases "(w', i', b') = (w, i, b)")
  case True
  then show ?thesis using in_same [OF assms(1)] by simp
next
  case False
  then show ?thesis using in_other [OF assms(1,2) False] by auto
qed

lemma out_on_hand:
  assumes "inventory_out c w i q re ri b now = Done c'" "pk_ok c"
  shows "on_hand c' w' i' b' =
           (if (w', i', b') = (w, i, b) then out_new_qty (on_hand c w i b) q
            else on_hand c w' i' b')"
proof (cases "(w', i', b') = (w, i, b)")
  case True
  then show ?thesis using out_same [OF assms(1)] by simp
next
  case False
  then show ?thesis using out_other [OF assms(1,2) False] by auto
qed

lemma in_other_rows:
  assumes "inventory_in c w i q re ri b now = Done c'" "pk_ok c" "inv_key r \<noteq> (w, i, b)"
  shows "r \<in> set (inventory c') \<longleftrightarrow> r \<in> set (inventory c)"
proof -
  obtain row c1 where g: "get_or_create_inv c w i b = (Some row, c1)"
    and sel: "select_inv c1 w i b = Some row"
    and eq: "inventory_in c w i q re ri b now =
       stock_movements_insert (inventory_set_qty c1 (inv_id row) (in_new_qty (on_hand c w i b) q))
         (now_ts_id ''MIN'' now) IN w None i b (py_float q) ''GRN'' re ri"
    by (rule inventory_in_unfold)
  have "inventory c' = inventory (inventory_set_qty c1 (inv_id row) (in_new_qty (on_hand c w i b) q))"
    using assms(1) unfolding eq stock_movements_insert_Done by simp
  then show ?thesis by (simp add: adjust_other_rows [OF g sel assms(2,3)])
qed

lemma out_other_rows:
  assumes "inventory_out c w i q re ri b now = Done c'" "pk_ok c" "inv_key r \<noteq> (w, i, b)"
  shows "r \<in> set (inventory c') \<longleftrightarrow> r \<in> set (inventory c)"
proof -
  obtain row c1 where g: "get_or_create_inv c w i b = (Some row, c1)"
    and sel: "select_inv c1 w i b = Some row"
    and eq: "inventory_out c w i q re ri b now =
       (if out_new_qty (on_hand c w i b) q < - py_float (1 / 1000000)
        then Raised (InsufficientStock i w (decimal3 (on_hand c w i b)) q) c1
        else stock_movements_insert (inventory_set_qty c1 (inv_id row) (out_new_qty (on_hand c w i b) q))
               (now_ts_id ''MOUT'' now) OUT w None i b (py_float q) ''DELIVERY'' re ri)"
    by (rule inventory_out_unfold)
  have "inventory c' = inventory (inventory_set_qty c1 (inv_id row) (out_new_qty (on_hand c w i b) q))"
    using assms(1) unfolding eq by (auto simp: stock_movements_insert_Done split: if_splits)
  then show ?thesis by (simp add: adjust_other_rows [OF g sel assms(2,3)])
qed


lemma engine_begin_Raised: "body c = Raised e c1 \<Longrightarrow> engine_begin body c = (Some e, c)"
  by (simp add: engine_begin_def)

lemma engine_begin_Done: "body c = Done c' \<Longrightarrow> engine_begin body c = (None, c')"
  by (simp add: engine_begin_def)

lemma engine_begin_None:
  "engine_begin body c = (None, c') \<longleftrightarrow> body c = Done c'"
  by (simp add: engine_begin_def split: outcome.splits)

lemma in_exact:
  assumes d: "inventory_in c w i q re ri b now = Done c'" and pk: "pk_ok c"
    and x: "on_hand c w i b \<in> \<int>" "\<bar>on_hand c w i b\<bar> \<le> 2 ^ 52"
    and q: "q \<in> \<int>" "\<bar>q\<bar> \<le> 2 ^ 52"
  shows "on_hand c' w' i' b' = on_hand c w' i' b' + (if (w', i', b') = (w, i, b) then q else 0)"
    and "py_float q = q"
proof -
  have b1: "\<bar>on_hand c w i b\<bar> \<le> 2 ^ 53" using x(2) by simp
  have b2: "\<bar>q\<bar> \<le> 2 ^ 53" using q(2) by simp
  have b3: "\<bar>on_hand c w i b + q\<bar> \<le> 2 ^ 53" using x(2) q(2) by simp
  have new: "in_new_qty (on_hand c w i b) q = on_hand c w i b + q"
    using x(1) q(1) b1 b2 b3 by (rule in_new_qty_whole)
  show "on_hand c' w' i' b' = on_hand c w' i' b' + (if (w', i', b') = (w, i, b) then q else 0)"
    using in_on_hand [OF d pk, of w' i' b'] new by auto
  show "py_float q = q" using q(1) b2 by (rule py_float_whole)
qed

lemma out_exact:
  assumes d: "inventory_out c w i q re ri b now = Done c'" and pk: "pk_ok c"
    and x: "on_hand c w i b \<in> \<int>" "\<bar>on_hand c w i b\<bar> \<le> 2 ^ 52"
    and q: "q \<in> \<int>" "\<bar>q\<bar> \<le> 2 ^ 52"
  shows "on_hand c' w' i' b' = on_hand c w' i' b' - (if (w', i', b') = (w, i, b) then q else 0)"
    and "py_float q = q"
    and "q \<le> on_hand c w i b"
proof -
  have b1: "\<bar>on_hand c w i b\<bar> \<le> 2 ^ 53" using x(2) by simp
  have b2: "\<bar>q\<bar> \<le> 2 ^ 53" using q(2) by simp
  have b3: "\<bar>on_hand c w i b - q\<bar> \<le> 2 ^ 53" using x(2) q(2) by simp
  have new: "out_new_qty (on_hand c w i b) q = on_hand c w i b - q"
    using x(1) q(1) b1 b2 b3 by (rule out_new_qty_whole)
  show "on_hand c' w' i' b' = on_hand c w' i' b' - (if (w', i', b') = (w, i, b) then q else 0)"
    using out_on_hand [OF d pk, of w' i' b'] new by auto
  show "py_float q = q" using q(1) b2 by (rule py_float_whole)
  have "\<not> on_hand c w i b - q < - py_float (1 / 1000000)"
    using out_enough [OF d] new by simp
  then have gt: "- 1 < on_hand c w i b - q" by (simp add: py_float_eps)
  obtain n where n: "on_hand c w i b - q = of_int n"
    using x(1) q(1) by (metis Ints_cases Ints_diff)
  have "(of_int (- 1) :: rat) < of_int n" using gt n by simp
  then have "- 1 < n" by (simp only: of_int_less_iff)
  then have "0 \<le> n" by simp
  then have "(0::rat) \<le> of_int n" by simp
  then show "q \<le> on_hand c w i b" using n by simp
qed

subsection \<open>An OUT\<close>

lemma inventory_out_rejects:
  assumes "out_new_qty (on_hand c w i b) q < - py_float (1 / 1000000)"
  shows "engine_begin (\<lambda>c. inventory_out c w i q re ri b now) c
           = (Some (InsufficientStock i w (decimal3 (on_hand c w i b)) q), c)"
  using inventory_out_insufficient [OF assms] by (simp add: engine_begin_Raised)

lemma inventory_out_commits:
  assumes "\<not> out_new_qty (on_hand c w i b) q < - py_float (1 / 1000000)"
    and "now_ts_id ''MOUT'' now \<notin> movement_no ` set (stock_movements c)"
  shows "\<exists>c'. engine_begin (\<lambda>c. inventory_out c w i q re ri b now) c = (None, c')
           \<and> on_hand c' w i b = out_new_qty (on_hand c w i b) q
           \<and> stock_movements c' = stock_movements c @ [out_record c w i q re ri b now]"
proof -
  obtain c' where d: "inventory_out c w i q re ri b now = Done c'"
    using inventory_out_succeeds [OF assms] by blast
  show ?thesis
    using out_same [OF d] out_log [OF d] by (simp add: engine_begin_def d)
qed

text \<open>
  Claim C1 (OUT: rejection without a write, otherwise decrease and one OUT row).
  \<^verbatim>\<open>inventory_out\<close> takes the float difference of the stock line, read at three
  decimals, and of the quantity. In every state a call whose difference is below
  \<^verbatim>\<open>-1e-6\<close> raises the exception and the transaction writes nothing
  (\<open>inventory_out_rejects\<close>), and any other call whose movement number is new commits,
  stores the difference and appends one OUT row (\<open>inventory_out_commits\<close>). The second
  half fails when the clock reading repeats: \<^verbatim>\<open>movement_no\<close> is the prefix
  \<^verbatim>\<open>MOUT\<close> and the time to the second, and the column is unique. Below, items 7 and 8
  are in stock (30 and 10 on hand) and an OUT of item 7 has been logged at 12:01:00; an
  OUT of 5 of item 8 in that same second, for which stock is sufficient, raises the
  integrity error and the transaction leaves quantity and log as they were.
\<close>

theorem inventory_out_same_second:
  "on_hand (run [OpIN 1 7 50 ''GRN'' 1 None ''20261103120000'',
                 OpIN 1 8 10 ''GRN'' 1 None ''20261103120001'',
                 OpOUT 1 7 20 ''DO'' 1 None ''20261103120100'']) 1 8 None = 10
   \<and> engine_begin (perform (OpOUT 1 8 5 ''DO'' 1 None ''20261103120100''))
        (run [OpIN 1 7 50 ''GRN'' 1 None ''20261103120000'',
              OpIN 1 8 10 ''GRN'' 1 None ''20261103120001'',
              OpOUT 1 7 20 ''DO'' 1 None ''20261103120100''])
       = (Some (IntegrityError ''MOUT20261103120100''),
          run [OpIN 1 7 50 ''GRN'' 1 None ''20261103120000'',
               OpIN 1 8 10 ''GRN'' 1 None ''20261103120001'',
               OpOUT 1 7 20 ''DO'' 1 None ''20261103120100''])"
  by (simp add: engine_defs)

subsection \<open>An IN\<close>

text \<open>
  Claim C6, as amended. \<^verbatim>\<open>inventory_in\<close> has no test on the quantity and no error for
  an invalid one: for every quantity, positive, zero or negative, a call whose movement
  number is new to the log commits when the ids are 64-bit integers and the quantity and
  the stock line are of magnitude at most \<open>2 ^ 1000\<close> (so that no float is infinite). It
  sets the stock line of the key to the float sum of the three-decimal reading of the
  line and of the quantity, and appends exactly one row of type IN for that warehouse,
  item and bin, with the quantity as a float. When the line and the quantity are whole
  numbers of magnitude at most \<open>2 ^ 52\<close>, the line has gone up by exactly the quantity
  and the row carries exactly the quantity.
\<close>

theorem inventory_in_any_quantity:
  assumes "now_ts_id ''MIN'' now \<notin> movement_no ` set (stock_movements c)"
    and "ids_ok (OpIN w i q re ri b now)"
    and "\<bar>on_hand c w i b\<bar> \<le> 2 ^ 1000 \<and> \<bar>q\<bar> \<le> 2 ^ 1000"
  shows "\<exists>c'. engine_begin (\<lambda>c. inventory_in c w i q re ri b now) c = (None, c')
           \<and> on_hand c' w i b = in_new_qty (on_hand c w i b) q
           \<and> (\<exists>m. stock_movements c' = stock_movements c @ [m]
                 \<and> mv_type m = IN \<and> mv_warehouse_id m = w \<and> mv_warehouse_to_id m = None
                 \<and> mv_item_id m = i \<and> mv_bin_id m = b \<and> mv_qty m = py_float q
                 \<and> (on_hand c w i b \<in> \<int> \<and> \<bar>on_hand c w i b\<bar> \<le> 2 ^ 52
                      \<and> q \<in> \<int> \<and> \<bar>q\<bar> \<le> 2 ^ 52
                    \<longrightarrow> on_hand c' w i b = on_hand c w i b + q \<and> mv_qty m = q))"
proof -
  obtain c' where d: "inventory_in c w i q re ri b now = Done c'"
    using inventory_in_succeeds [OF assms(1)] by blast
  have same: "on_hand c' w i b = in_new_qty (on_hand c w i b) q" using d by (rule in_same)
  have exact: "on_hand c' w i b = on_hand c w i b + q \<and> py_float q = q"
    if h: "on_hand c w i b \<in> \<int> \<and> \<bar>on_hand c w i b\<bar> \<le> 2 ^ 52 \<and> q \<in> \<int> \<and> \<bar>q\<bar> \<le> 2 ^ 52"
  proof -
    have x: "on_hand c w i b \<in> \<int>" and q: "q \<in> \<int>"
      and x2: "\<bar>on_hand c w i b\<bar> \<le> 2 ^ 52" and q2: "\<bar>q\<bar> \<le> 2 ^ 52"
      using h by simp_all
    have b1: "\<bar>on_hand c w i b\<bar> \<le> 2 ^ 53" using x2 by simp
    have b2: "\<bar>q\<bar> \<le> 2 ^ 53" using q2 by simp
    have b3: "\<bar>on_hand c w i b + q\<bar> \<le> 2 ^ 53" using x2 q2 by simp
    have "in_new_qty (on_hand c w i b) q = on_hand c w i b + q"
      using x q b1 b2 b3 by (rule in_new_qty_whole)
    moreover have "py_float q = q" using q b2 by (rule py_float_whole)
    ultimately show ?thesis using same by simp
  qed
  have "\<exists>m. stock_movements c' = stock_movements c @ [m]
                 \<and> mv_type m = IN \<and> mv_warehouse_id m = w \<and> mv_warehouse_to_id m = None
                 \<and> mv_item_id m = i \<and> mv_bin_id m = b \<and> mv_qty m = py_float q
                 \<and> (on_hand c w i b \<in> \<int> \<and> \<bar>on_hand c w i b\<bar> \<le> 2 ^ 52
                      \<and> q \<in> \<int> \<and> \<bar>q\<bar> \<le> 2 ^ 52
                    \<longrightarrow> on_hand c' w i b = on_hand c w i b + q \<and> mv_qty m = q)"
    unfolding in_log [OF d]
    using exact
    by (intro exI [of _ "in_record c w i q re ri b now"]) (simp add: in_record_def)
  then show ?thesis
    using same by (simp add: engine_begin_def d)
qed

theorem inventory_in_any_quantity_witness:
  "now_ts_id ''MIN'' ''20261103120000'' \<notin> movement_no ` set (stock_movements empty_db)
   \<and> ids_ok (OpIN 1 7 0 ''GRN'' 1 None ''20261103120000'')
   \<and> on_hand empty_db 1 7 None = 0
   \<and> engine_begin (\<lambda>c. inventory_in c 1 7 0 ''GRN'' 1 None ''20261103120000'') empty_db
       = (None,
          \<lparr>inventory = [\<lparr>inv_id = 1, inv_warehouse_id = 1, inv_item_id = 7, inv_bin_id = None,
                           inv_qty = 0\<rparr>],
            stock_movements = [\<lparr>mv_id = 1, movement_no = ''MIN20261103120000'', mv_type = IN,
               mv_warehouse_id = 1, mv_warehouse_to_id = None, mv_item_id = 7,
               mv_bin_id = None, mv_qty = 0, mv_reason = ''GRN'', mv_ref_entity = ''GRN'',
               mv_ref_id = 1\<rparr>]\<rparr>)"
proof -
  have fresh: "now_ts_id ''MIN'' ''20261103120000'' \<notin> movement_no ` set (stock_movements empty_db)"
    by (simp add: empty_db_def)
  have ids: "ids_ok (OpIN 1 7 0 ''GRN'' 1 None ''20261103120000'')"
    by (simp add: int64_def)
  have x: "on_hand empty_db 1 7 None = 0" by (simp add: engine_defs)
  have range: "\<bar>on_hand empty_db 1 7 None\<bar> \<le> 2 ^ 1000 \<and> \<bar>0::rat\<bar> \<le> 2 ^ 1000"
    by (simp add: x)
  show ?thesis
    using fresh ids x inventory_in_any_quantity [OF fresh ids range]
    by (simp add: engine_defs)
qed

text \<open>
  Claim C6 as stated fails: on the empty ledger an IN of quantity -5 does not fail and
  writes both tables.
\<close>

theorem inventory_in_negative_counterexample:
  "engine_begin (perform (OpIN 1 7 (- 5) ''GRN'' 1 None ''20261103120000'')) empty_db
     = (None,
        \<lparr>inventory = [\<lparr>inv_id = 1, inv_warehouse_id = 1, inv_item_id = 7, inv_bin_id = None,
                         inv_qty = - 5\<rparr>],
          stock_movements = [\<lparr>mv_id = 1, movement_no = ''MIN20261103120000'', mv_type = IN,
             mv_warehouse_id = 1, mv_warehouse_to_id = None, mv_item_id = 7,
             mv_bin_id = None, mv_qty = - 5, mv_reason = ''GRN'', mv_ref_entity = ''GRN'',
             mv_ref_id = 1\<rparr>]\<rparr>)"
  by (simp add: engine_defs)

text \<open>
  Claim C9, as amended. The row that a completed \<^verbatim>\<open>inventory_in\<close> appends has the
  fixed reason \<^verbatim>\<open>GRN\<close>, whatever the reference entity type of the call is; the reference
  entity type and id of the call are stored in the row's \<^verbatim>\<open>ref_entity\<close> and
  \<^verbatim>\<open>ref_id\<close>.
\<close>

theorem inventory_in_reason:
  assumes "inventory_in c w i q re ri b now = Done c'"
  shows "\<exists>m. stock_movements c' = stock_movements c @ [m] \<and> mv_type m = IN
           \<and> mv_reason m = ''GRN'' \<and> mv_ref_entity m = re \<and> mv_ref_id m = ri"
  unfolding in_log [OF assms]
  by (intro exI [of _ "in_record c w i q re ri b now"]) (simp add: in_record_def)

theorem inventory_in_reason_witness:
  "inventory_in empty_db 1 7 50 ''GRN'' 12 None ''20261103120000''
     = Done \<lparr>inventory = [\<lparr>inv_id = 1, inv_warehouse_id = 1, inv_item_id = 7,
                              inv_bin_id = None, inv_qty = 50\<rparr>],
              stock_movements = [\<lparr>mv_id = 1, movement_no = ''MIN20261103120000'',
                 mv_type = IN, mv_warehouse_id = 1, mv_warehouse_to_id = None, mv_item_id = 7,
                 mv_bin_id = None, mv_qty = 50, mv_reason = ''GRN'', mv_ref_entity = ''GRN'',
                 mv_ref_id = 12\<rparr>]\<rparr>"
proof -
  have d: "inventory_in empty_db 1 7 50 ''GRN'' 12 None ''20261103120000''
     = Done \<lparr>inventory = [\<lparr>inv_id = 1, inv_warehouse_id = 1, inv_item_id = 7,
                              inv_bin_id = None, inv_qty = 50\<rparr>],
              stock_movements = [\<lparr>mv_id = 1, movement_no = ''MIN20261103120000'',
                 mv_type = IN, mv_warehouse_id = 1, mv_warehouse_to_id = None, mv_item_id = 7,
                 mv_bin_id = None, mv_qty = 50, mv_reason = ''GRN'', mv_ref_entity = ''GRN'',
                 mv_ref_id = 12\<rparr>]\<rparr>"
    by (simp add: engine_defs)
  show ?thesis using d inventory_in_reason [OF d] by simp
qed

text \<open>
  Claim C9 as stated fails: the IN leg of a transfer, called with the reference entity
  type \<^verbatim>\<open>TRANSFER\<close>, logs the reason \<^verbatim>\<open>GRN\<close>.
\<close>

theorem inventory_in_reason_counterexample:
  "inventory_in empty_db 2 7 30 ''TRANSFER'' 0 None ''20261103120000''
     = Done \<lparr>inventory = [\<lparr>inv_id = 1, inv_warehouse_id = 2, inv_item_id = 7,
                              inv_bin_id = None, inv_qty = 30\<rparr>],
              stock_movements = [\<lparr>mv_id = 1, movement_no = ''MIN20261103120000'',
                 mv_type = IN, mv_warehouse_id = 2, mv_warehouse_to_id = None, mv_item_id = 7,
                 mv_bin_id = None, mv_qty = 30, mv_reason = ''GRN'',
                 mv_ref_entity = ''TRANSFER'', mv_ref_id = 0\<rparr>]\<rparr>
   \<and> ''GRN'' \<noteq> ''TRANSFER''"
  by (simp add: engine_defs)

subsection \<open>The effect of a transfer\<close>

lemma transfer_stock_Done:
  assumes "transfer_stock c wh_from wh_to i q rsn now1 now2 now3 = Done c'"
  obtains c1 c2 where
    "inventory_out c wh_from i q ''TRANSFER'' 0 None now1 = Done c1"
    "inventory_in c1 wh_to i q ''TRANSFER'' 0 None now2 = Done c2"
    "c' = c2\<lparr>stock_movements := stock_movements c2 @ [transfer_record c2 wh_from wh_to i q rsn now3]\<rparr>"
    "now_ts_id ''MTR'' now3 \<notin> movement_no ` set (stock_movements c2)"
proof (cases "inventory_out c wh_from i q ''TRANSFER'' 0 None now1")
  case (Raised e c1)
  then show ?thesis using assms by (simp add: transfer_stock_def)
next
  case out: (Done c1)
  show ?thesis
  proof (cases "inventory_in c1 wh_to i q ''TRANSFER'' 0 None now2")
    case (Raised e c2)
    then show ?thesis using assms out by (simp add: transfer_stock_def)
  next
    case inn: (Done c2)
    have "stock_movements_insert c2 (now_ts_id ''MTR'' now3) TRANSFER wh_from (Some wh_to)
            i None (py_float q) rsn ''TRANSFER'' 0 = Done c'"
      using assms out inn by (simp add: transfer_stock_def)
    then have "now_ts_id ''MTR'' now3 \<notin> movement_no ` set (stock_movements c2)"
      and "c' = c2\<lparr>stock_movements := stock_movements c2 @ [transfer_record c2 wh_from wh_to i q rsn now3]\<rparr>"
      unfolding stock_movements_insert_Done by (simp_all add: transfer_record_def)
    with out inn show ?thesis by (rule_tac that)
  qed
qed

lemma now_ts_id_prefixes:
  "now_ts_id ''MIN'' a \<noteq> now_ts_id ''MOUT'' b"
  "now_ts_id ''MTR'' a \<noteq> now_ts_id ''MOUT'' b"
  "now_ts_id ''MTR'' a \<noteq> now_ts_id ''MIN'' b"
  by (simp_all add: now_ts_id_def)

lemma transfer_stock_succeeds:
  assumes "\<not> out_new_qty (on_hand c wh_from i None) q < - py_float (1 / 1000000)"
    and "now_ts_id ''MOUT'' now1 \<notin> movement_no ` set (stock_movements c)"
    and "now_ts_id ''MIN'' now2 \<notin> movement_no ` set (stock_movements c)"
    and "now_ts_id ''MTR'' now3 \<notin> movement_no ` set (stock_movements c)"
  shows "\<exists>c'. transfer_stock c wh_from wh_to i q rsn now1 now2 now3 = Done c'"
proof -
  obtain c1 where d1: "inventory_out c wh_from i q ''TRANSFER'' 0 None now1 = Done c1"
    using inventory_out_succeeds [OF assms(1,2)] by blast
  have l1: "stock_movements c1 = stock_movements c @ [out_record c wh_from i q ''TRANSFER'' 0 None now1]"
    using d1 by (rule out_log)
  have "now_ts_id ''MIN'' now2 \<notin> movement_no ` set (stock_movements c1)"
    using assms(3) by (simp add: l1 out_record_def now_ts_id_prefixes)
  then obtain c2 where d2: "inventory_in c1 wh_to i q ''TRANSFER'' 0 None now2 = Done c2"
    using inventory_in_succeeds by blast
  have l2: "stock_movements c2 = stock_movements c1 @ [in_record c1 wh_to i q ''TRANSFER'' 0 None now2]"
    using d2 by (rule in_log)
  have "now_ts_id ''MTR'' now3 \<notin> movement_no ` set (stock_movements c2)"
    using assms(4) by (simp add: l1 l2 out_record_def in_record_def now_ts_id_prefixes)
  then show ?thesis
    by (simp add: transfer_stock_def d1 d2 stock_movements_insert_Done)
qed

subsection \<open>Atomicity of a transfer\<close>

text \<open>
  Claim C4 (TRANSFER atomicity). In every state, when the OUT leg of
  \<^verbatim>\<open>transfer_stock\<close> raises the insufficient-stock error, \<^verbatim>\<open>transfer_stock\<close> raises that
  same error at once: at that point nothing has been logged and no quantity has changed
  (the only write can be the row of quantity 0 that the lookup creates for the source key),
  and the transaction block of the caller rolls back, so that the ledger and the log are
  exactly what they were before the call.
\<close>

theorem transfer_atomicity:
  assumes "inventory_out c wh_from i q ''TRANSFER'' 0 None now1
             = Raised (InsufficientStock a1 a2 a3 a4) c1"
  shows "transfer_stock c wh_from wh_to i q rsn now1 now2 now3
             = Raised (InsufficientStock a1 a2 a3 a4) c1
    \<and> stock_movements c1 = stock_movements c
    \<and> (\<forall>w' i' b'. on_hand c1 w' i' b' = on_hand c w' i' b')
    \<and> engine_begin (\<lambda>c. transfer_stock c wh_from wh_to i q rsn now1 now2 now3) c
         = (Some (InsufficientStock a1 a2 a3 a4), c)"
proof -
  have t: "transfer_stock c wh_from wh_to i q rsn now1 now2 now3
             = Raised (InsufficientStock a1 a2 a3 a4) c1"
    using assms by (simp add: transfer_stock_def)
  have c1: "c1 = snd (get_or_create_inv c wh_from i None)"
    using assms by (rule inventory_out_Raised_insufficient)
  show ?thesis
    using t by (simp add: c1 get_or_create_inv_movements get_or_create_inv_on_hand
        engine_begin_Raised)
qed

theorem transfer_atomicity_witness:
  "inventory_out empty_db 1 7 30 ''TRANSFER'' 0 None ''20261103120000''
     = Raised (InsufficientStock 7 1 0 30)
         \<lparr>inventory = [\<lparr>inv_id = 1, inv_warehouse_id = 1, inv_item_id = 7, inv_bin_id = None,
                          inv_qty = 0\<rparr>], stock_movements = []\<rparr>
   \<and> engine_begin (\<lambda>c. transfer_stock c 1 2 7 30 ''TRANSFER'' ''20261103120000''
          ''20261103120000'' ''20261103120000'') empty_db
       = (Some (InsufficientStock 7 1 0 30), empty_db)"
proof -
  have out: "inventory_out empty_db 1 7 30 ''TRANSFER'' 0 None ''20261103120000''
     = Raised (InsufficientStock 7 1 0 30)
         \<lparr>inventory = [\<lparr>inv_id = 1, inv_warehouse_id = 1, inv_item_id = 7, inv_bin_id = None,
                          inv_qty = 0\<rparr>], stock_movements = []\<rparr>"
    by (simp add: engine_defs)
  show ?thesis
    using out transfer_atomicity [OF out, of 2 "''TRANSFER''" "''20261103120000''" "''20261103120000''"]
    by simp
qed

subsection \<open>Conservation in a transfer\<close>

text \<open>
  Claim C5, as amended. Both legs compute in floats on the three-decimal reading of the
  stored quantity, so a transfer does not move exactly Q in general (see the
  counterexample below). It does for whole quantities: in every state whose
  \<^verbatim>\<open>inventory\<close> ids are distinct (the primary key), when a transfer from warehouse A to
  a different warehouse B of quantity Q of item X succeeds (the transaction commits), the
  ids are 64-bit integers, and Q and the quantities on hand at (A, X) and (B, X) are whole
  numbers of magnitude at most \<open>2 ^ 52\<close>, then A held at least Q, the quantity on hand at
  (A, X) has gone down by exactly Q, the quantity on hand at (B, X) has gone up by exactly
  Q, every other key has the quantity it had and every row of another key is untouched,
  and exactly three rows have been appended to the log, in this order: one OUT at A, one
  IN at B, one TRANSFER that carries A as source and B as destination, each for item X
  and quantity Q.
\<close>

theorem transfer_conservation:
  assumes "pk_ok c" and "wh_from \<noteq> wh_to"
    and "int64 wh_from \<and> int64 wh_to \<and> int64 i"
    and "on_hand c wh_from i None \<in> \<int> \<and> \<bar>on_hand c wh_from i None\<bar> \<le> 2 ^ 52"
    and "on_hand c wh_to i None \<in> \<int> \<and> \<bar>on_hand c wh_to i None\<bar> \<le> 2 ^ 52"
    and "q \<in> \<int> \<and> \<bar>q\<bar> \<le> 2 ^ 52"
    and "engine_begin (\<lambda>c. transfer_stock c wh_from wh_to i q rsn now1 now2 now3) c = (None, c')"
  shows "q \<le> on_hand c wh_from i None
    \<and> on_hand c' wh_from i None = on_hand c wh_from i None - q
    \<and> on_hand c' wh_to i None = on_hand c wh_to i None + q
    \<and> (\<forall>w' i' b'. (w', i', b') \<noteq> (wh_from, i, None) \<and> (w', i', b') \<noteq> (wh_to, i, None)
          \<longrightarrow> on_hand c' w' i' b' = on_hand c w' i' b')
    \<and> (\<forall>r. inv_key r \<noteq> (wh_from, i, None) \<and> inv_key r \<noteq> (wh_to, i, None)
          \<longrightarrow> (r \<in> set (inventory c') \<longleftrightarrow> r \<in> set (inventory c)))
    \<and> (\<exists>m1 m2 m3. stock_movements c' = stock_movements c @ [m1, m2, m3]
          \<and> mv_type m1 = OUT \<and> mv_warehouse_id m1 = wh_from \<and> mv_item_id m1 = i \<and> mv_qty m1 = q
          \<and> mv_type m2 = IN \<and> mv_warehouse_id m2 = wh_to \<and> mv_item_id m2 = i \<and> mv_qty m2 = q
          \<and> mv_type m3 = TRANSFER \<and> mv_warehouse_id m3 = wh_from
          \<and> mv_warehouse_to_id m3 = Some wh_to \<and> mv_item_id m3 = i \<and> mv_qty m3 = q)"
proof -
  have d: "transfer_stock c wh_from wh_to i q rsn now1 now2 now3 = Done c'"
    using assms(7) by (simp add: engine_begin_None)
  then obtain c1 c2 where
    d1: "inventory_out c wh_from i q ''TRANSFER'' 0 None now1 = Done c1" and
    d2: "inventory_in c1 wh_to i q ''TRANSFER'' 0 None now2 = Done c2" and
    c': "c' = c2\<lparr>stock_movements := stock_movements c2 @ [transfer_record c2 wh_from wh_to i q rsn now3]\<rparr>"
    by (rule transfer_stock_Done)
  have pk: "pk_ok c" by (rule assms(1))
  have pk1: "pk_ok c1" using d1 pk by (rule out_pk_ok)
  have xa: "on_hand c wh_from i None \<in> \<int>" "\<bar>on_hand c wh_from i None\<bar> \<le> 2 ^ 52"
    and xb: "on_hand c wh_to i None \<in> \<int>" "\<bar>on_hand c wh_to i None\<bar> \<le> 2 ^ 52"
    and q: "q \<in> \<int>" "\<bar>q\<bar> \<le> 2 ^ 52"
    using assms(4,5,6) by simp_all
  have e1: "on_hand c1 w' i' b'
      = on_hand c w' i' b' - (if (w', i', b') = (wh_from, i, None) then q else 0)" for w' i' b'
    using d1 pk xa q by (rule out_exact)
  have fq: "py_float q = q" using d1 pk xa q by (rule out_exact)
  have enough: "q \<le> on_hand c wh_from i None" using d1 pk xa q by (rule out_exact)
  have b1: "on_hand c1 wh_to i None = on_hand c wh_to i None"
    using e1 [of wh_to i None] assms(2) by simp
  have e2: "on_hand c2 w' i' b'
      = on_hand c1 w' i' b' + (if (w', i', b') = (wh_to, i, None) then q else 0)" for w' i' b'
    using d2 pk1 xb [folded b1] q by (rule in_exact)
  have A: "on_hand c' wh_from i None = on_hand c wh_from i None - q"
    using e1 [of wh_from i None] e2 [of wh_from i None] assms(2) by (simp add: c')
  have B: "on_hand c' wh_to i None = on_hand c wh_to i None + q"
    using e1 [of wh_to i None] e2 [of wh_to i None] assms(2) by (simp add: c')
  have others: "\<forall>w' i' b'. (w', i', b') \<noteq> (wh_from, i, None) \<and> (w', i', b') \<noteq> (wh_to, i, None)
          \<longrightarrow> on_hand c' w' i' b' = on_hand c w' i' b'"
    using e1 e2 by (simp add: c')
  have r1: "r \<in> set (inventory c1) \<longleftrightarrow> r \<in> set (inventory c)"
    if "inv_key r \<noteq> (wh_from, i, None)" for r
    using d1 pk that by (rule out_other_rows)
  have r2: "r \<in> set (inventory c') \<longleftrightarrow> r \<in> set (inventory c1)"
    if "inv_key r \<noteq> (wh_to, i, None)" for r
    using in_other_rows [OF d2 pk1 that] by (simp add: c')
  have rows: "\<forall>r. inv_key r \<noteq> (wh_from, i, None) \<and> inv_key r \<noteq> (wh_to, i, None)
          \<longrightarrow> (r \<in> set (inventory c') \<longleftrightarrow> r \<in> set (inventory c))"
    using r1 r2 by simp
  have lg: "stock_movements c' = stock_movements c @
       [out_record c wh_from i q ''TRANSFER'' 0 None now1,
        in_record c1 wh_to i q ''TRANSFER'' 0 None now2,
        transfer_record c2 wh_from wh_to i q rsn now3]"
    by (simp add: c' in_log [OF d2] out_log [OF d1])
  have log: "\<exists>m1 m2 m3. stock_movements c' = stock_movements c @ [m1, m2, m3]
          \<and> mv_type m1 = OUT \<and> mv_warehouse_id m1 = wh_from \<and> mv_item_id m1 = i \<and> mv_qty m1 = q
          \<and> mv_type m2 = IN \<and> mv_warehouse_id m2 = wh_to \<and> mv_item_id m2 = i \<and> mv_qty m2 = q
          \<and> mv_type m3 = TRANSFER \<and> mv_warehouse_id m3 = wh_from
          \<and> mv_warehouse_to_id m3 = Some wh_to \<and> mv_item_id m3 = i \<and> mv_qty m3 = q"
    unfolding lg
    by (intro exI [of _ "out_record c wh_from i q ''TRANSFER'' 0 None now1"]
              exI [of _ "in_record c1 wh_to i q ''TRANSFER'' 0 None now2"]
              exI [of _ "transfer_record c2 wh_from wh_to i q rsn now3"])
       (simp add: out_record_def in_record_def transfer_record_def fq)
  show ?thesis using enough A B others rows log by blast
qed

theorem transfer_conservation_witness:
  "pk_ok (run [OpIN 1 7 50 ''GRN'' 1 None ''20261103120000''])
   \<and> engine_begin (\<lambda>c. transfer_stock c 1 2 7 30 ''TRANSFER'' ''20261103120100''
          ''20261103120100'' ''20261103120100'')
        (run [OpIN 1 7 50 ''GRN'' 1 None ''20261103120000''])
       = (None, run [OpIN 1 7 50 ''GRN'' 1 None ''20261103120000'',
                     OpTRANSFER 1 2 7 30 ''TRANSFER'' ''20261103120100'' ''20261103120100''
                       ''20261103120100''])
   \<and> on_hand (run [OpIN 1 7 50 ''GRN'' 1 None ''20261103120000'']) 1 7 None = 50
   \<and> on_hand (run [OpIN 1 7 50 ''GRN'' 1 None ''20261103120000'',
                     OpTRANSFER 1 2 7 30 ''TRANSFER'' ''20261103120100'' ''20261103120100''
                       ''20261103120100'']) 1 7 None = 50 - 30
   \<and> on_hand (run [OpIN 1 7 50 ''GRN'' 1 None ''20261103120000'',
                     OpTRANSFER 1 2 7 30 ''TRANSFER'' ''20261103120100'' ''20261103120100''
                       ''20261103120100'']) 2 7 None = 0 + 30"
proof -
  let ?c = "run [OpIN 1 7 50 ''GRN'' 1 None ''20261103120000'']"
  let ?c' = "run [OpIN 1 7 50 ''GRN'' 1 None ''20261103120000'',
                     OpTRANSFER 1 2 7 30 ''TRANSFER'' ''20261103120100'' ''20261103120100''
                       ''20261103120100'']"
  have pk: "pk_ok ?c" by (simp add: engine_defs pk_ok_def)
  have ne: "(1::int) \<noteq> 2" by simp
  have ids: "int64 1 \<and> int64 2 \<and> int64 7" by (simp add: int64_def)
  have before: "on_hand ?c 1 7 None = 50" "on_hand ?c 2 7 None = 0"
    by (simp_all add: engine_defs)
  have xa: "on_hand ?c 1 7 None \<in> \<int> \<and> \<bar>on_hand ?c 1 7 None\<bar> \<le> 2 ^ 52"
    by (simp add: before)
  have xb: "on_hand ?c 2 7 None \<in> \<int> \<and> \<bar>on_hand ?c 2 7 None\<bar> \<le> 2 ^ 52"
    by (simp add: before)
  have q: "(30::rat) \<in> \<int> \<and> \<bar>30::rat\<bar> \<le> 2 ^ 52" by simp
  have tr: "engine_begin (\<lambda>c. transfer_stock c 1 2 7 30 ''TRANSFER'' ''20261103120100''
          ''20261103120100'' ''20261103120100'') ?c = (None, ?c')"
    by (simp add: engine_defs)
  show ?thesis
    using transfer_conservation [OF pk ne ids xa xb q tr] pk tr before by simp
qed

text \<open>
  Claim C5 as stated fails: warehouse 1 holds 50 of item 7 and 1/2048 (0.00048828125) has
  been transferred to warehouse 2, so that the lines hold 49.99951171875 and
  0.00048828125. A second transfer of 1/2048 commits and leaves both lines as they were:
  each leg reads its line at three decimals, as 50.000 and as 0.000.
\<close>

theorem transfer_conservation_counterexample:
  "on_hand (run [OpIN 1 7 50 ''GRN'' 1 None ''20261103120000'',
                 OpTRANSFER 1 2 7 (1 / 2048) ''TRANSFER'' ''20261103120100'' ''20261103120100''
                   ''20261103120100'']) 1 7 None = 102399 / 2048
   \<and> on_hand (run [OpIN 1 7 50 ''GRN'' 1 None ''20261103120000'',
                 OpTRANSFER 1 2 7 (1 / 2048) ''TRANSFER'' ''20261103120100'' ''20261103120100''
                   ''20261103120100'']) 2 7 None = 1 / 2048
   \<and> engine_begin (perform (OpTRANSFER 1 2 7 (1 / 2048) ''TRANSFER'' ''20261103120200''
          ''20261103120200'' ''20261103120200''))
        (run [OpIN 1 7 50 ''GRN'' 1 None ''20261103120000'',
              OpTRANSFER 1 2 7 (1 / 2048) ''TRANSFER'' ''20261103120100'' ''20261103120100''
                ''20261103120100''])
       = (None,
          run [OpIN 1 7 50 ''GRN'' 1 None ''20261103120000'',
               OpTRANSFER 1 2 7 (1 / 2048) ''TRANSFER'' ''20261103120100'' ''20261103120100''
                 ''20261103120100'',
               OpTRANSFER 1 2 7 (1 / 2048) ''TRANSFER'' ''20261103120200'' ''20261103120200''
                 ''20261103120200''])
   \<and> on_hand (run [OpIN 1 7 50 ''GRN'' 1 None ''20261103120000'',
                 OpTRANSFER 1 2 7 (1 / 2048) ''TRANSFER'' ''20261103120100'' ''20261103120100''
                   ''20261103120100'',
                 OpTRANSFER 1 2 7 (1 / 2048) ''TRANSFER'' ''20261103120200'' ''20261103120200''
                   ''20261103120200'']) 1 7 None = 102399 / 2048
   \<and> on_hand (run [OpIN 1 7 50 ''GRN'' 1 None ''20261103120000'',
                 OpTRANSFER 1 2 7 (1 / 2048) ''TRANSFER'' ''20261103120100'' ''20261103120100''
                   ''20261103120100'',
                 OpTRANSFER 1 2 7 (1 / 2048) ''TRANSFER'' ''20261103120200'' ''20261103120200''
                   ''20261103120200'']) 2 7 None = 1 / 2048"
  by (simp add: engine_defs example_floats)

subsection \<open>A transfer within one warehouse\<close>

lemma transfer_same_warehouse:
  assumes x: "on_hand c w i None \<in> \<int>" "\<bar>on_hand c w i None\<bar> \<le> 2 ^ 52"
    and q: "q \<in> \<int>" "\<bar>q\<bar> \<le> 2 ^ 52" "q \<le> on_hand c w i None"
    and "now_ts_id ''MOUT'' now1 \<notin> movement_no ` set (stock_movements c)"
    and "now_ts_id ''MIN'' now2 \<notin> movement_no ` set (stock_movements c)"
    and "now_ts_id ''MTR'' now3 \<notin> movement_no ` set (stock_movements c)"
  shows "\<exists>c'. engine_begin (\<lambda>c. transfer_stock c w w i q rsn now1 now2 now3) c = (None, c')
           \<and> on_hand c' w i None = on_hand c w i None
           \<and> map mv_type (stock_movements c') = map mv_type (stock_movements c) @ [OUT, IN, TRANSFER]"
proof -
  have b1: "\<bar>on_hand c w i None\<bar> \<le> 2 ^ 53" using x(2) by simp
  have b2: "\<bar>q\<bar> \<le> 2 ^ 53" using q(2) by simp
  have b3: "\<bar>on_hand c w i None - q\<bar> \<le> 2 ^ 53" using x(2) q(2) by simp
  have new: "out_new_qty (on_hand c w i None) q = on_hand c w i None - q"
    using x(1) q(1) b1 b2 b3 by (rule out_new_qty_whole)
  have enough: "\<not> out_new_qty (on_hand c w i None) q < - py_float (1 / 1000000)"
    using q(3) by (simp add: new py_float_eps)
  obtain c' where d: "transfer_stock c w w i q rsn now1 now2 now3 = Done c'"
    using transfer_stock_succeeds [OF enough assms(6,7,8)] by blast
  obtain c1 c2 where
    d1: "inventory_out c w i q ''TRANSFER'' 0 None now1 = Done c1" and
    d2: "inventory_in c1 w i q ''TRANSFER'' 0 None now2 = Done c2" and
    c': "c' = c2\<lparr>stock_movements := stock_movements c2 @ [transfer_record c2 w w i q rsn now3]\<rparr>"
    using d by (rule transfer_stock_Done)
  have s1: "on_hand c1 w i None = on_hand c w i None - q"
    using out_same [OF d1] new by simp
  have x1: "on_hand c w i None - q \<in> \<int>" using x(1) q(1) by simp
  have b4: "\<bar>on_hand c w i None - q + q\<bar> \<le> 2 ^ 53" using b1 by simp
  have "in_new_qty (on_hand c w i None - q) q = on_hand c w i None - q + q"
    using x1 q(1) b3 b2 b4 by (rule in_new_qty_whole)
  then have "on_hand c' w i None = on_hand c w i None"
    using in_same [OF d2] s1 by (simp add: c')
  moreover have "map mv_type (stock_movements c') = map mv_type (stock_movements c) @ [OUT, IN, TRANSFER]"
    by (simp add: c' in_log [OF d2] out_log [OF d1] in_record_def out_record_def transfer_record_def)
  ultimately show ?thesis
    by (simp add: engine_begin_def d)
qed

text \<open>
  Claim C10 (transfer within one warehouse). \<^verbatim>\<open>transfer_stock\<close> has no test that source
  and destination differ, and when the three movement numbers of the call are new a
  transfer of a whole quantity from a warehouse to itself with enough stock commits,
  leaves the quantity on hand as it was and appends an OUT, an IN and a TRANSFER row
  (\<open>transfer_same_warehouse\<close>). It does not succeed in every state, though: below,
  warehouse 1 holds 50 of item 7 and a transfer of 10 from 1 to 1 has been logged at
  12:01:00; the same transfer again within that second raises the integrity error on
  \<^verbatim>\<open>MOUT20261103120100\<close> and appends nothing.
\<close>

theorem transfer_same_warehouse_same_second:
  "on_hand (run [OpIN 1 7 50 ''GRN'' 1 None ''20261103120000'',
                 OpTRANSFER 1 1 7 10 ''TRANSFER'' ''20261103120100'' ''20261103120100''
                   ''20261103120100'']) 1 7 None = 50
   \<and> engine_begin (perform (OpTRANSFER 1 1 7 10 ''TRANSFER'' ''20261103120100''
          ''20261103120100'' ''20261103120100''))
        (run [OpIN 1 7 50 ''GRN'' 1 None ''20261103120000'',
              OpTRANSFER 1 1 7 10 ''TRANSFER'' ''20261103120100'' ''20261103120100''
                ''20261103120100''])
       = (Some (IntegrityError ''MOUT20261103120100''),
          run [OpIN 1 7 50 ''GRN'' 1 None ''20261103120000'',
               OpTRANSFER 1 1 7 10 ''TRANSFER'' ''20261103120100'' ''20261103120100''
                 ''20261103120100''])"
  by (simp add: engine_defs)

subsection \<open>Invariants of the ledger\<close>

lemma perform_ledger_ok:
  assumes "perform op c = Done c'" "ledger_ok c"
  shows "ledger_ok c'"
proof (cases op)
  case (OpIN w i q re ri b now)
  then have d: "inventory_in c w i q re ri b now = Done c'" using assms(1) by simp
  show ?thesis
    using assms(2) in_pk_ok [OF d] in_keys_ok [OF d] by (simp add: ledger_ok_def)
next
  case (OpOUT w i q re ri b now)
  then have d: "inventory_out c w i q re ri b now = Done c'" using assms(1) by simp
  show ?thesis
    using assms(2) out_pk_ok [OF d] out_keys_ok [OF d] by (simp add: ledger_ok_def)
next
  case (OpTRANSFER wh_from wh_to i q rsn now1 now2 now3)
  then have "transfer_stock c wh_from wh_to i q rsn now1 now2 now3 = Done c'"
    using assms(1) by simp
  then obtain c1 c2 where
    d1: "inventory_out c wh_from i q ''TRANSFER'' 0 None now1 = Done c1" and
    d2: "inventory_in c1 wh_to i q ''TRANSFER'' 0 None now2 = Done c2" and
    c': "c' = c2\<lparr>stock_movements := stock_movements c2 @ [transfer_record c2 wh_from wh_to i q rsn now3]\<rparr>"
    by (rule transfer_stock_Done)
  have "ledger_ok c1"
    using assms(2) out_pk_ok [OF d1] out_keys_ok [OF d1] by (simp add: ledger_ok_def)
  then have "ledger_ok c2"
    using in_pk_ok [OF d2] in_keys_ok [OF d2] by (simp add: ledger_ok_def)
  then show ?thesis by (simp add: c' ledger_ok_def)
qed

lemma engine_call_cases:
  "engine_call c op = c \<or> perform op c = Done (engine_call c op)"
  by (simp add: engine_call_def engine_begin_def split: outcome.splits)

lemma engine_call_Done: "perform op c = Done c' \<Longrightarrow> engine_call c op = c'"
  by (simp add: engine_call_def engine_begin_def)

lemma engine_call_ledger_ok: "ledger_ok c \<Longrightarrow> ledger_ok (engine_call c op)"
  using engine_call_cases [of c op] perform_ledger_ok [of op c "engine_call c op"] by auto

lemma foldl_engine_call_ledger_ok: "ledger_ok c \<Longrightarrow> ledger_ok (foldl engine_call c ops)"
  by (induction ops arbitrary: c) (simp_all add: engine_call_ledger_ok)

lemma ledger_ok_empty: "ledger_ok empty_db"
  by (simp add: ledger_ok_def pk_ok_def keys_ok_def empty_db_def)

lemma run_ledger_ok: "ledger_ok (run ops)"
  unfolding run_def by (rule foldl_engine_call_ledger_ok [OF ledger_ok_empty])

lemma run_pk_ok: "pk_ok (run ops)"
  using run_ledger_ok [of ops] by (simp add: ledger_ok_def)

lemma run_one_row_per_key: "distinct (map inv_key (inventory (run ops)))"
  using run_ledger_ok [of ops] by (simp add: ledger_ok_def keys_ok_def)

lemma run_row_on_hand:
  "r \<in> set (inventory (run ops)) \<Longrightarrow>
     on_hand (run ops) (inv_warehouse_id r) (inv_item_id r) (inv_bin_id r) = inv_qty r"
  using run_ledger_ok [of ops] by (simp add: ledger_ok_def keys_ok_on_hand)

text \<open>
  A block that runs several calls and commits or rolls back as a whole ends in a state that
  single calls reach as well, so the states \<open>run ops\<close> are all the committed states.
\<close>

lemma perform_all_Done:
  "perform_all ops c = Done c' \<Longrightarrow> foldl engine_call c ops = c'"
proof (induction ops arbitrary: c)
  case Nil
  then show ?case by simp
next
  case (Cons op ops)
  then obtain c1 where d: "perform op c = Done c1" and r: "perform_all ops c1 = Done c'"
    by (auto split: outcome.splits)
  show ?case using Cons.IH [OF r] engine_call_Done [OF d] by simp
qed

lemma block_of_calls:
  "engine_begin (perform_all ops) (run ops0) = (None, run (ops0 @ ops))
   \<or> (\<exists>e. engine_begin (perform_all ops) (run ops0) = (Some e, run ops0))"
proof (cases "perform_all ops (run ops0)")
  case (Done c')
  then have "foldl engine_call (run ops0) ops = c'" by (rule perform_all_Done)
  then have "run (ops0 @ ops) = c'" by (simp add: run_def)
  then show ?thesis using Done by (simp add: engine_begin_def)
next
  case (Raised e c')
  then show ?thesis by (simp add: engine_begin_def)
qed

subsection \<open>Whole quantities\<close>

text \<open>
  On whole numbers of magnitude up to \<open>2 ^ 53\<close> the arithmetic of the engine is exact:
  such a number is a float, it is its own reading at three decimals, and a sum or
  difference that stays in the range is not rounded.
\<close>

lemma whole_ok_mono: "whole_ok N c \<Longrightarrow> N \<le> M \<Longrightarrow> whole_ok M c"
  unfolding whole_ok_def by (meson order_trans)

lemma whole_ok_movements_upd [simp]: "whole_ok N (c\<lparr>stock_movements := ms\<rparr>) = whole_ok N c"
  by (simp add: whole_ok_def)

lemma in_whole:
  assumes d: "inventory_in c w i q re ri b now = Done c'" and pk: "pk_ok c"
    and wh: "whole_ok N c" and q: "q \<in> \<int>" and N: "N + \<bar>q\<bar> \<le> 2 ^ 53"
  shows "on_hand c' w' i' b' = on_hand c w' i' b' + (if (w', i', b') = (w, i, b) then q else 0)"
    and "whole_ok (N + \<bar>q\<bar>) c'"
    and "py_float q = q"
proof -
  have x: "on_hand c w i b \<in> \<int>" "\<bar>on_hand c w i b\<bar> \<le> N"
    using wh by (simp_all add: whole_ok_def)
  have N0: "0 \<le> N" using x(2) by linarith
  have b1: "\<bar>on_hand c w i b\<bar> \<le> 2 ^ 53" using x(2) N by linarith
  have b2: "\<bar>q\<bar> \<le> 2 ^ 53" using N0 N by linarith
  have b3: "\<bar>on_hand c w i b + q\<bar> \<le> 2 ^ 53" using x(2) N by linarith
  have new: "in_new_qty (on_hand c w i b) q = on_hand c w i b + q"
    using x(1) q b1 b2 b3 by (rule in_new_qty_whole)
  show eff: "on_hand c' w' i' b' = on_hand c w' i' b' + (if (w', i', b') = (w, i, b) then q else 0)"
    for w' i' b'
    using in_on_hand [OF d pk, of w' i' b'] new by auto
  show "py_float q = q" using q b2 by (rule py_float_whole)
  show "whole_ok (N + \<bar>q\<bar>) c'"
    unfolding whole_ok_def
  proof (intro allI conjI)
    fix w' i' b'
    have y: "on_hand c w' i' b' \<in> \<int>" "\<bar>on_hand c w' i' b'\<bar> \<le> N"
      using wh by (simp_all add: whole_ok_def)
    show "on_hand c' w' i' b' \<in> \<int>" using y(1) q by (simp add: eff)
    show "\<bar>on_hand c' w' i' b'\<bar> \<le> N + \<bar>q\<bar>"
      using y(2) x(2) unfolding eff by (cases "(w', i', b') = (w, i, b)") auto
  qed
qed

lemma out_whole:
  assumes d: "inventory_out c w i q re ri b now = Done c'" and pk: "pk_ok c"
    and wh: "whole_ok N c" and q: "q \<in> \<int>" and N: "N + \<bar>q\<bar> \<le> 2 ^ 53"
  shows "on_hand c' w' i' b' = on_hand c w' i' b' - (if (w', i', b') = (w, i, b) then q else 0)"
    and "whole_ok (N + \<bar>q\<bar>) c'"
    and "py_float q = q"
    and "q \<le> on_hand c w i b"
proof -
  have x: "on_hand c w i b \<in> \<int>" "\<bar>on_hand c w i b\<bar> \<le> N"
    using wh by (simp_all add: whole_ok_def)
  have N0: "0 \<le> N" using x(2) by linarith
  have b1: "\<bar>on_hand c w i b\<bar> \<le> 2 ^ 53" using x(2) N by linarith
  have b2: "\<bar>q\<bar> \<le> 2 ^ 53" using N0 N by linarith
  have b3: "\<bar>on_hand c w i b - q\<bar> \<le> 2 ^ 53" using x(2) N by linarith
  have new: "out_new_qty (on_hand c w i b) q = on_hand c w i b - q"
    using x(1) q b1 b2 b3 by (rule out_new_qty_whole)
  show eff: "on_hand c' w' i' b' = on_hand c w' i' b' - (if (w', i', b') = (w, i, b) then q else 0)"
    for w' i' b'
    using out_on_hand [OF d pk, of w' i' b'] new by auto
  show "py_float q = q" using q b2 by (rule py_float_whole)
  show "whole_ok (N + \<bar>q\<bar>) c'"
    unfolding whole_ok_def
  proof (intro allI conjI)
    fix w' i' b'
    have y: "on_hand c w' i' b' \<in> \<int>" "\<bar>on_hand c w' i' b'\<bar> \<le> N"
      using wh by (simp_all add: whole_ok_def)
    show "on_hand c' w' i' b' \<in> \<int>" using y(1) q by (simp add: eff)
    show "\<bar>on_hand c' w' i' b'\<bar> \<le> N + \<bar>q\<bar>"
      using y(2) x(2) unfolding eff by (cases "(w', i', b') = (w, i, b)") auto
  qed
  have "\<not> on_hand c w i b - q < - py_float (1 / 1000000)"
    using out_enough [OF d] new by simp
  then have gt: "- 1 < on_hand c w i b - q" by (simp add: py_float_eps)
  obtain n where n: "on_hand c w i b - q = of_int n"
    using x(1) q by (metis Ints_cases Ints_diff)
  have "(of_int (- 1) :: rat) < of_int n" using gt n by simp
  then have "- 1 < n" by (simp only: of_int_less_iff)
  then have "0 \<le> n" by simp
  then have "(0::rat) \<le> of_int n" by simp
  then show "q \<le> on_hand c w i b" using n by simp
qed

subsection \<open>Replay equivalence\<close>

lemma replay_snoc: "replay (ms @ [m]) w i b = replay ms w i b + signed_qty w i b m"
  by (simp add: replay_def)

lemma signed_qty_in_record:
  "signed_qty w' i' b' (in_record c w i q re ri b now)
     = (if (w', i', b') = (w, i, b) then py_float q else 0)"
  by (simp add: signed_qty_def in_record_def)

lemma signed_qty_out_record:
  "signed_qty w' i' b' (out_record c w i q re ri b now)
     = - (if (w', i', b') = (w, i, b) then py_float q else 0)"
  by (simp add: signed_qty_def out_record_def)

lemma signed_qty_transfer_record:
  "signed_qty w' i' b' (transfer_record c wh_from wh_to i q rsn now) = 0"
  by (simp add: signed_qty_def transfer_record_def)

lemma in_replay_ok:
  assumes d: "inventory_in c w i q re ri b now = Done c'" and pk: "pk_ok c"
    and wh: "whole_ok N c" and q: "q \<in> \<int>" and N: "N + \<bar>q\<bar> \<le> 2 ^ 53"
    and rp: "replay_ok c"
  shows "replay_ok c'"
  using rp unfolding replay_ok_def
  by (simp add: in_whole(1) [OF d pk wh q N] in_whole(3) [OF d pk wh q N] in_log [OF d]
      replay_snoc signed_qty_in_record)

lemma out_replay_ok:
  assumes d: "inventory_out c w i q re ri b now = Done c'" and pk: "pk_ok c"
    and wh: "whole_ok N c" and q: "q \<in> \<int>" and N: "N + \<bar>q\<bar> \<le> 2 ^ 53"
    and rp: "replay_ok c"
  shows "replay_ok c'"
  using rp unfolding replay_ok_def
  by (simp add: out_whole(1) [OF d pk wh q N] out_whole(3) [OF d pk wh q N] out_log [OF d]
      replay_snoc signed_qty_out_record)

lemma perform_whole:
  assumes d: "perform op c = Done c'" and pk: "pk_ok c" and rp: "replay_ok c"
    and wh: "whole_ok N c" and q: "op_qty op \<in> \<int>"
    and N: "N + 2 * \<bar>op_qty op\<bar> \<le> 2 ^ 53"
  shows "replay_ok c'" and "whole_ok (N + 2 * \<bar>op_qty op\<bar>) c'"
proof -
  have both: "replay_ok c' \<and> whole_ok (N + 2 * \<bar>op_qty op\<bar>) c'"
  proof (cases op)
    case (OpIN w i q' re ri b now)
    then have d1: "inventory_in c w i q' re ri b now = Done c'" using d by simp
    have q': "q' \<in> \<int>" and N': "N + \<bar>q'\<bar> \<le> 2 ^ 53" using q N OpIN by simp_all
    have "whole_ok (N + \<bar>q'\<bar>) c'" using d1 pk wh q' N' by (rule in_whole)
    then have "whole_ok (N + 2 * \<bar>q'\<bar>) c'" by (rule whole_ok_mono) simp
    then show ?thesis using in_replay_ok [OF d1 pk wh q' N' rp] OpIN by simp
  next
    case (OpOUT w i q' re ri b now)
    then have d1: "inventory_out c w i q' re ri b now = Done c'" using d by simp
    have q': "q' \<in> \<int>" and N': "N + \<bar>q'\<bar> \<le> 2 ^ 53" using q N OpOUT by simp_all
    have "whole_ok (N + \<bar>q'\<bar>) c'" using d1 pk wh q' N' by (rule out_whole)
    then have "whole_ok (N + 2 * \<bar>q'\<bar>) c'" by (rule whole_ok_mono) simp
    then show ?thesis using out_replay_ok [OF d1 pk wh q' N' rp] OpOUT by simp
  next
    case (OpTRANSFER wh_from wh_to i q' rsn now1 now2 now3)
    then have "transfer_stock c wh_from wh_to i q' rsn now1 now2 now3 = Done c'"
      using d by simp
    then obtain c1 c2 where
      d1: "inventory_out c wh_from i q' ''TRANSFER'' 0 None now1 = Done c1" and
      d2: "inventory_in c1 wh_to i q' ''TRANSFER'' 0 None now2 = Done c2" and
      c': "c' = c2\<lparr>stock_movements := stock_movements c2 @ [transfer_record c2 wh_from wh_to i q' rsn now3]\<rparr>"
      by (rule transfer_stock_Done)
    have q': "q' \<in> \<int>" and N1: "N + \<bar>q'\<bar> \<le> 2 ^ 53" and N2: "N + \<bar>q'\<bar> + \<bar>q'\<bar> \<le> 2 ^ 53"
      using q N OpTRANSFER by simp_all
    have wh1: "whole_ok (N + \<bar>q'\<bar>) c1" using d1 pk wh q' N1 by (rule out_whole)
    have rp1: "replay_ok c1" using d1 pk wh q' N1 rp by (rule out_replay_ok)
    have pk1: "pk_ok c1" using d1 pk by (rule out_pk_ok)
    have wh2: "whole_ok (N + \<bar>q'\<bar> + \<bar>q'\<bar>) c2" using d2 pk1 wh1 q' N2 by (rule in_whole)
    have rp2: "replay_ok c2" using d2 pk1 wh1 q' N2 rp1 by (rule in_replay_ok)
    have "replay_ok c'"
      using rp2 by (simp add: c' replay_ok_def replay_snoc signed_qty_transfer_record)
    moreover have "whole_ok (N + 2 * \<bar>q'\<bar>) c'"
      using wh2 by (simp add: c' algebra_simps)
    ultimately show ?thesis using OpTRANSFER by simp
  qed
  show "replay_ok c'" using both ..
  show "whole_ok (N + 2 * \<bar>op_qty op\<bar>) c'" using both ..
qed

lemma foldl_engine_call_replay_ok:
  assumes "ledger_ok c" "replay_ok c" "whole_ok N c"
    and "\<forall>op \<in> set ops. op_qty op \<in> \<int>" and "N + 2 * total_qty ops \<le> 2 ^ 53"
  shows "replay_ok (foldl engine_call c ops)"
  using assms
proof (induction ops arbitrary: c N)
  case Nil
  then show ?case by simp
next
  case (Cons op ops)
  let ?c = "engine_call c op" and ?M = "N + 2 * \<bar>op_qty op\<bar>"
  have pk: "pk_ok c" using Cons.prems(1) by (simp add: ledger_ok_def)
  have q: "op_qty op \<in> \<int>" using Cons.prems(4) by simp
  have tot: "total_qty (op # ops) = \<bar>op_qty op\<bar> + total_qty ops" by (simp add: total_qty_def)
  have t0: "0 \<le> total_qty ops"
    unfolding total_qty_def by (rule sum_list_nonneg) auto
  have N: "?M \<le> 2 ^ 53" using Cons.prems(5) t0 by (simp add: tot)
  have step: "replay_ok ?c \<and> whole_ok ?M ?c"
  proof (cases "perform op c = Done ?c")
    case True
    then show ?thesis
      using perform_whole [OF True pk Cons.prems(2,3) q N] by simp
  next
    case False
    then have "?c = c" using engine_call_cases [of c op] by simp
    moreover have "whole_ok ?M c" using Cons.prems(3) by (rule whole_ok_mono) simp
    ultimately show ?thesis using Cons.prems(2) by simp
  qed
  have "replay_ok (foldl engine_call ?c ops)"
  proof (rule Cons.IH)
    show "ledger_ok ?c" using Cons.prems(1) by (rule engine_call_ledger_ok)
    show "replay_ok ?c" using step ..
    show "whole_ok ?M ?c" using step ..
    show "\<forall>op \<in> set ops. op_qty op \<in> \<int>" using Cons.prems(4) by simp
    show "?M + 2 * total_qty ops \<le> 2 ^ 53" using Cons.prems(5) by (simp add: tot)
  qed
  then show ?case by simp
qed

text \<open>
  Claim C2, as amended. The engine adds and subtracts floats, and it reads the stored
  quantity at three decimals first, so in general a stock line is not the sum of its
  movements (see the counterexample below). It is for whole quantities: after every
  sequence of engine operations (IN, OUT, TRANSFER, each in its own transaction, at any
  clock readings) from the empty ledger whose ids are 64-bit integers and whose quantities
  are whole numbers with absolute values adding up to at most \<open>2 ^ 52\<close>, the quantity of
  every row of \<^verbatim>\<open>inventory\<close> equals the signed sum of the logged movements of the row's
  (warehouse, item, bin) key: IN rows add, OUT rows subtract, and a TRANSFER counts
  through the OUT row and the IN row of its two legs. As every prefix of such a sequence
  is such a sequence, this holds after each operation.
\<close>

theorem replay_equivalence:
  assumes "\<forall>op \<in> set ops. op_qty op \<in> \<int> \<and> ids_ok op" and "total_qty ops \<le> 2 ^ 52"
  shows "\<forall>r \<in> set (inventory (run ops)).
     inv_qty r = replay (stock_movements (run ops)) (inv_warehouse_id r) (inv_item_id r) (inv_bin_id r)"
proof
  fix r assume r: "r \<in> set (inventory (run ops))"
  have "replay_ok (foldl engine_call empty_db ops)"
  proof (rule foldl_engine_call_replay_ok)
    show "ledger_ok empty_db" by (rule ledger_ok_empty)
    show "replay_ok empty_db"
      by (simp add: replay_ok_def empty_db_def on_hand_def select_inv_def replay_def)
    show "whole_ok 0 empty_db"
      by (simp add: whole_ok_def empty_db_def on_hand_def select_inv_def)
    show "\<forall>op \<in> set ops. op_qty op \<in> \<int>" using assms(1) by simp
    show "0 + 2 * total_qty ops \<le> 2 ^ 53" using assms(2) by simp
  qed
  then have "on_hand (run ops) (inv_warehouse_id r) (inv_item_id r) (inv_bin_id r)
      = replay (stock_movements (run ops)) (inv_warehouse_id r) (inv_item_id r) (inv_bin_id r)"
    by (simp add: run_def replay_ok_def)
  then show "inv_qty r
      = replay (stock_movements (run ops)) (inv_warehouse_id r) (inv_item_id r) (inv_bin_id r)"
    using run_row_on_hand [OF r] by simp
qed

theorem replay_equivalence_witness:
  "inventory (run [OpIN 1 7 50 ''GRN'' 1 None ''20261103120000'',
                   OpOUT 1 7 20 ''DO'' 1 None ''20261103120100'',
                   OpOUT 1 7 40 ''DO'' 2 None ''20261103120200'',
                   OpTRANSFER 1 2 7 10 ''TRANSFER'' ''20261103120300'' ''20261103120300''
                     ''20261103120300''])
   = [\<lparr>inv_id = 1, inv_warehouse_id = 1, inv_item_id = 7, inv_bin_id = None, inv_qty = 20\<rparr>,
      \<lparr>inv_id = 2, inv_warehouse_id = 2, inv_item_id = 7, inv_bin_id = None, inv_qty = 10\<rparr>]
   \<and> replay (stock_movements (run [OpIN 1 7 50 ''GRN'' 1 None ''20261103120000'',
                   OpOUT 1 7 20 ''DO'' 1 None ''20261103120100'',
                   OpOUT 1 7 40 ''DO'' 2 None ''20261103120200'',
                   OpTRANSFER 1 2 7 10 ''TRANSFER'' ''20261103120300'' ''20261103120300''
                     ''20261103120300''])) 1 7 None = 20
   \<and> replay (stock_movements (run [OpIN 1 7 50 ''GRN'' 1 None ''20261103120000'',
                   OpOUT 1 7 20 ''DO'' 1 None ''20261103120100'',
                   OpOUT 1 7 40 ''DO'' 2 None ''20261103120200'',
                   OpTRANSFER 1 2 7 10 ''TRANSFER'' ''20261103120300'' ''20261103120300''
                     ''20261103120300''])) 2 7 None = 10"
  using replay_equivalence [of "[OpIN 1 7 50 ''GRN'' 1 None ''20261103120000'',
                   OpOUT 1 7 20 ''DO'' 1 None ''20261103120100'',
                   OpOUT 1 7 40 ''DO'' 2 None ''20261103120200'',
                   OpTRANSFER 1 2 7 10 ''TRANSFER'' ''20261103120300'' ''20261103120300''
                     ''20261103120300'']"]
  by (simp add: engine_defs replay_def signed_qty_def total_qty_def int64_def)

text \<open>
  Claim C2 as stated fails: after a receipt of 0.001 and two deliveries of 0.0005 of
  item 7 in warehouse 1, all three accepted, the stock line holds the float 0.0005 and
  reads 0.001, while the three logged movements add up to 0, and to -0.001 when each is
  read at three decimals. Each delivery reads the line as 0.001.
\<close>

theorem replay_equivalence_counterexample:
  "inventory (run [OpIN 1 7 (1 / 1000) ''GRN'' 1 None ''20261103120000'',
                   OpOUT 1 7 (1 / 2000) ''DO'' 1 None ''20261103120100'',
                   OpOUT 1 7 (1 / 2000) ''DO'' 2 None ''20261103120200''])
     = [\<lparr>inv_id = 1, inv_warehouse_id = 1, inv_item_id = 7, inv_bin_id = None,
          inv_qty = 1152921504606847 / 2305843009213693952\<rparr>]
   \<and> replay (stock_movements (run [OpIN 1 7 (1 / 1000) ''GRN'' 1 None ''20261103120000'',
                   OpOUT 1 7 (1 / 2000) ''DO'' 1 None ''20261103120100'',
                   OpOUT 1 7 (1 / 2000) ''DO'' 2 None ''20261103120200''])) 1 7 None = 0
   \<and> decimal3 (1152921504606847 / 2305843009213693952) = 1 / 1000
   \<and> replay_read (stock_movements (run [OpIN 1 7 (1 / 1000) ''GRN'' 1 None ''20261103120000'',
                   OpOUT 1 7 (1 / 2000) ''DO'' 1 None ''20261103120100'',
                   OpOUT 1 7 (1 / 2000) ''DO'' 2 None ''20261103120200''])) 1 7 None
       = - (1 / 1000)"
  by (simp add: engine_defs replay_def replay_read_def signed_qty_def example_floats)

subsection \<open>Non-negativity\<close>

lemma in_floor_ok:
  assumes d: "inventory_in c w i q re ri b now = Done c'" and pk: "pk_ok c"
    and fl: "floor_ok c" and q: "0 \<le> q"
  shows "floor_ok c'"
  unfolding floor_ok_def
proof (intro allI)
  fix w' i' b'
  have old: "\<not> on_hand c w' i' b' < - py_float (1 / 1000000)" for w' i' b'
    using fl by (simp add: floor_ok_def)
  have "0 \<le> in_new_qty (on_hand c w i b) q" using old q by (rule in_new_qty_nonneg)
  then have "\<not> in_new_qty (on_hand c w i b) q < - py_float (1 / 1000000)"
    using eps_bounds(1) by linarith
  then show "\<not> on_hand c' w' i' b' < - py_float (1 / 1000000)"
    using old [of w' i' b'] by (simp add: in_on_hand [OF d pk])
qed

lemma out_floor_ok:
  assumes d: "inventory_out c w i q re ri b now = Done c'" and pk: "pk_ok c"
    and fl: "floor_ok c"
  shows "floor_ok c'"
  unfolding floor_ok_def
proof (intro allI)
  fix w' i' b'
  have old: "\<not> on_hand c w' i' b' < - py_float (1 / 1000000)"
    using fl by (simp add: floor_ok_def)
  show "\<not> on_hand c' w' i' b' < - py_float (1 / 1000000)"
    using old out_enough [OF d] by (simp add: out_on_hand [OF d pk])
qed

lemma perform_floor_ok:
  assumes "perform op c = Done c'" "pk_ok c" "floor_ok c" "adds_stock op \<longrightarrow> 0 \<le> op_qty op"
  shows "floor_ok c'"
proof (cases op)
  case (OpIN w i q re ri b now)
  then have d: "inventory_in c w i q re ri b now = Done c'" using assms(1) by simp
  show ?thesis using in_floor_ok [OF d assms(2,3)] assms(4) OpIN by simp
next
  case (OpOUT w i q re ri b now)
  then have d: "inventory_out c w i q re ri b now = Done c'" using assms(1) by simp
  show ?thesis using out_floor_ok [OF d assms(2,3)] .
next
  case (OpTRANSFER wh_from wh_to i q rsn now1 now2 now3)
  then have "transfer_stock c wh_from wh_to i q rsn now1 now2 now3 = Done c'"
    using assms(1) by simp
  then obtain c1 c2 where
    d1: "inventory_out c wh_from i q ''TRANSFER'' 0 None now1 = Done c1" and
    d2: "inventory_in c1 wh_to i q ''TRANSFER'' 0 None now2 = Done c2" and
    c': "c' = c2\<lparr>stock_movements := stock_movements c2 @ [transfer_record c2 wh_from wh_to i q rsn now3]\<rparr>"
    by (rule transfer_stock_Done)
  have q: "0 \<le> q" using assms(4) OpTRANSFER by simp
  have "floor_ok c1" using out_floor_ok [OF d1 assms(2,3)] .
  then have "floor_ok c2" using in_floor_ok [OF d2 out_pk_ok [OF d1 assms(2)]] q by simp
  then show ?thesis by (simp add: c' floor_ok_def)
qed

lemma engine_call_floor_ok:
  assumes "ledger_ok c" "floor_ok c" "adds_stock op \<longrightarrow> 0 \<le> op_qty op"
  shows "floor_ok (engine_call c op)"
  using engine_call_cases [of c op] assms
    perform_floor_ok [of op c "engine_call c op"]
  by (auto simp: ledger_ok_def)

lemma foldl_engine_call_floor_ok:
  "ledger_ok c \<Longrightarrow> floor_ok c \<Longrightarrow> \<forall>op \<in> set ops. adds_stock op \<longrightarrow> 0 \<le> op_qty op \<Longrightarrow>
     floor_ok (foldl engine_call c ops)"
proof (induction ops arbitrary: c)
  case Nil
  then show ?case by simp
next
  case (Cons op ops)
  have "ledger_ok (engine_call c op)" using Cons.prems(1) by (rule engine_call_ledger_ok)
  moreover have "floor_ok (engine_call c op)"
    using Cons.prems by (intro engine_call_floor_ok) simp_all
  ultimately show ?case using Cons.IH Cons.prems(3) by simp
qed

lemma floor_ok_empty: "floor_ok empty_db"
  using eps_bounds(1) by (simp add: floor_ok_def empty_db_def on_hand_def select_inv_def)

text \<open>
  Claim C3, as amended. The engine never checks the sign of a quantity, so an IN of a
  negative quantity leaves a stock line below the tolerance (see the counterexample
  below). For every sequence of IN, OUT and TRANSFER operations from the empty ledger in
  which each IN and each TRANSFER has a quantity of at least 0 (an OUT may have any
  quantity), with ids that are 64-bit integers and quantities that stay in the range of
  the floats (their absolute values add up to at most \<open>2 ^ 1000\<close>), no stock line is ever
  left at a quantity strictly below the float \<^verbatim>\<open>-1e-6\<close> that \<^verbatim>\<open>inventory_out\<close> compares
  with, nor strictly below the number -0.000001.
\<close>

theorem non_negativity:
  assumes "\<forall>op \<in> set ops. (adds_stock op \<longrightarrow> 0 \<le> op_qty op) \<and> ids_ok op"
    and "total_qty ops \<le> 2 ^ 1000"
  shows "\<forall>r \<in> set (inventory (run ops)).
           \<not> inv_qty r < - py_float (1 / 1000000) \<and> \<not> inv_qty r < - (1 / 1000000)"
proof
  fix r assume r: "r \<in> set (inventory (run ops))"
  have "floor_ok (run ops)"
    unfolding run_def using ledger_ok_empty floor_ok_empty
  proof (rule foldl_engine_call_floor_ok)
    show "\<forall>op \<in> set ops. adds_stock op \<longrightarrow> 0 \<le> op_qty op" using assms(1) by simp
  qed
  then have "\<not> on_hand (run ops) (inv_warehouse_id r) (inv_item_id r) (inv_bin_id r)
                < - py_float (1 / 1000000)"
    by (simp add: floor_ok_def)
  then have a: "\<not> inv_qty r < - py_float (1 / 1000000)"
    using run_row_on_hand [OF r] by simp
  then have "\<not> inv_qty r < - (1 / 1000000)" using eps_bounds(2) by linarith
  with a show "\<not> inv_qty r < - py_float (1 / 1000000) \<and> \<not> inv_qty r < - (1 / 1000000)" ..
qed

theorem non_negativity_witness:
  "inventory (run [OpIN 1 7 50 ''GRN'' 1 None ''20261103120000'',
                   OpOUT 1 7 20 ''DO'' 1 None ''20261103120100'',
                   OpOUT 1 7 40 ''DO'' 2 None ''20261103120200'',
                   OpTRANSFER 1 2 7 30 ''TRANSFER'' ''20261103120300'' ''20261103120300''
                     ''20261103120300''])
   = [\<lparr>inv_id = 1, inv_warehouse_id = 1, inv_item_id = 7, inv_bin_id = None, inv_qty = 0\<rparr>,
      \<lparr>inv_id = 2, inv_warehouse_id = 2, inv_item_id = 7, inv_bin_id = None, inv_qty = 30\<rparr>]
   \<and> \<not> (0::rat) < - (1 / 1000000) \<and> \<not> (30::rat) < - (1 / 1000000)"
  using non_negativity [of "[OpIN 1 7 50 ''GRN'' 1 None ''20261103120000'',
                   OpOUT 1 7 20 ''DO'' 1 None ''20261103120100'',
                   OpOUT 1 7 40 ''DO'' 2 None ''20261103120200'',
                   OpTRANSFER 1 2 7 30 ''TRANSFER'' ''20261103120300'' ''20261103120300''
                     ''20261103120300'']"]
  by (simp add: engine_defs total_qty_def int64_def)

text \<open>
  Claim C3 as stated fails: from the empty ledger the single operation IN(1, 7, -5) is
  accepted and leaves the stock line of (1, 7) at -5.
\<close>

theorem non_negativity_counterexample:
  "inventory (run [OpIN 1 7 (- 5) ''GRN'' 1 None ''20261103120000''])
   = [\<lparr>inv_id = 1, inv_warehouse_id = 1, inv_item_id = 7, inv_bin_id = None, inv_qty = - 5\<rparr>]
   \<and> (- 5 :: rat) < - (1 / 1000000)"
  by (simp add: engine_defs)

subsection \<open>The scenario\<close>


end
